theory Spec2Isabelle
  imports Complex_Main "HOL-Library.Log_Nat" "HOL-Library.Multiset"
begin

section \<open>JavaScript numbers\<close>

text \<open>
  A JavaScript number is an IEEE 754 binary64 value. The finite ones are carried as the
  rational they denote; the two zeros are identified (they are equal under \<open>===\<close> and
  print alike in JSON). Every arithmetic result is rounded to the nearest binary64 value,
  ties to even, by \<open>round64\<close>.
\<close>

datatype jsnum = NaN | PInf | NInf | Fin real

definition pow2 :: "int \<Rightarrow> real" where
  "pow2 e = (if 0 \<le> e then 2 ^ nat e else 1 / 2 ^ nat (- e))"

definition floor_log2 :: "real \<Rightarrow> int" where
  \<comment> \<open>for \<open>0 < q\<close>: the exponent \<open>e\<close> with \<open>2^e \<le> q < 2^(e+1)\<close>\<close>
  "floor_log2 q =
     (if 1 \<le> q then bitlen \<lfloor>q\<rfloor> - 1
      else - bitlen (\<lceil>1 / q\<rceil> - 1))"

definition round_half_even :: "real \<Rightarrow> int" where
  "round_half_even x =
     (let f = \<lfloor>x\<rfloor>; r = x - of_int f
      in if r < 1 / 2 then f
         else if 1 / 2 < r then f + 1
         else if even f then f else f + 1)"

definition round64 :: "real \<Rightarrow> jsnum" where
  "round64 q =
     (if q = 0 then Fin 0
      else
        let a = \<bar>q\<bar>;
            e = max (floor_log2 a) (- 1022);
            u = pow2 (e - 52);
            v = of_int (round_half_even (a / u)) * u
        in if 2 ^ 1024 \<le> v then (if 0 < q then PInf else NInf)
           else Fin (if 0 < q then v else - v))"

fun num_add :: "jsnum \<Rightarrow> jsnum \<Rightarrow> jsnum" where
  "num_add NaN y = NaN"
| "num_add x NaN = NaN"
| "num_add PInf NInf = NaN"
| "num_add NInf PInf = NaN"
| "num_add PInf y = PInf"
| "num_add x PInf = PInf"
| "num_add NInf y = NInf"
| "num_add x NInf = NInf"
| "num_add (Fin a) (Fin b) = round64 (a + b)"

fun num_less :: "jsnum \<Rightarrow> jsnum \<Rightarrow> bool" where
  "num_less NaN y = False"
| "num_less x NaN = False"
| "num_less x NInf = False"
| "num_less NInf y = True"
| "num_less PInf y = False"
| "num_less x PInf = True"
| "num_less (Fin a) (Fin b) = (a < b)"

definition Math_min :: "jsnum \<Rightarrow> jsnum \<Rightarrow> jsnum" where
  "Math_min x y = (if x = NaN \<or> y = NaN then NaN else if num_less y x then y else x)"

definition Math_max :: "jsnum \<Rightarrow> jsnum \<Rightarrow> jsnum" where
  "Math_max x y = (if x = NaN \<or> y = NaN then NaN else if num_less x y then y else x)"

section \<open>JavaScript values and coercions\<close>

text \<open>
  The values a JSON body can put in a series entry: scalars. (Arrays and objects as
  entry values are outside the model.) Three facilities the service calls are not part
  of the repository and are taken as parameters: the date parser of the date library,
  whose result \<open>None\<close> stands for the Invalid Date, and the language's conversions
  between strings and numbers.
\<close>

datatype jsval = JUndefined | JNull | JBool bool | JNum jsnum | JStr string

datatype js_error = Error string | TypeError string

datatype date = Day int
  \<comment> \<open>a valid Date, as the number of its local calendar day, counted from 1970-01-01\<close>

record env =
  parse :: "string \<Rightarrow> date option"
  StringToNumber :: "string \<Rightarrow> jsnum"
  NumberToString :: "jsnum \<Rightarrow> string"

fun ToNumber :: "env \<Rightarrow> jsval \<Rightarrow> jsnum" where
  "ToNumber E JUndefined = NaN"
| "ToNumber E JNull = Fin 0"
| "ToNumber E (JBool b) = (if b then Fin 1 else Fin 0)"
| "ToNumber E (JNum n) = n"
| "ToNumber E (JStr s) = StringToNumber E s"

fun ToString :: "env \<Rightarrow> jsval \<Rightarrow> string" where
  "ToString E JUndefined = ''undefined''"
| "ToString E JNull = ''null''"
| "ToString E (JBool b) = (if b then ''true'' else ''false'')"
| "ToString E (JNum n) = NumberToString E n"
| "ToString E (JStr s) = s"

definition isNaN :: "env \<Rightarrow> jsval \<Rightarrow> bool" where
  "isNaN E v = (ToNumber E v = NaN)"

fun is_string :: "jsval \<Rightarrow> bool" where
  "is_string (JStr s) = True"
| "is_string v = False"

definition js_plus :: "env \<Rightarrow> jsval \<Rightarrow> jsval \<Rightarrow> jsval" where
  \<comment> \<open>the operator \<open>+\<close>: concatenation as soon as one operand is a string\<close>
  "js_plus E a b =
     (if is_string a \<or> is_string b then JStr (ToString E a @ ToString E b)
      else JNum (num_add (ToNumber E a) (ToNumber E b)))"

definition js_min :: "env \<Rightarrow> jsval \<Rightarrow> jsval \<Rightarrow> jsval" where
  "js_min E a b = JNum (Math_min (ToNumber E a) (ToNumber E b))"

definition js_max :: "env \<Rightarrow> jsval \<Rightarrow> jsval \<Rightarrow> jsval" where
  "js_max E a b = JNum (Math_max (ToNumber E a) (ToNumber E b))"

fun reduce :: "('a \<Rightarrow> 'a \<Rightarrow> 'a) \<Rightarrow> 'a list \<Rightarrow> js_error + 'a" where
  \<comment> \<open>\<open>Array.prototype.reduce\<close> without an initial value\<close>
  "reduce f [] = Inl (TypeError ''Reduce of empty array with no initial value'')"
| "reduce f (x # xs) = Inr (foldl f x xs)"

definition reduce_from :: "('b \<Rightarrow> 'a \<Rightarrow> 'b) \<Rightarrow> 'b \<Rightarrow> 'a list \<Rightarrow> js_error + 'b" where
  \<comment> \<open>\<open>Array.prototype.reduce\<close> with an initial value\<close>
  "reduce_from f init xs = Inr (foldl f init xs)"

section \<open>The calendar functions of the date library\<close>

text \<open>
  Modelled from the spec: the date library is not part of the repository. The period ends
  are those of the spec's Calendar Period Resolver (last day of the month, of the week, of
  the quarter, of the year), computed the way the library does it, with the setters of
  \<open>Date\<close>; the week starts on Sunday, the library's default. All of them read the local
  calendar day only, so a Date is carried as its day number.
\<close>

definition days_from_civil :: "int \<Rightarrow> int \<Rightarrow> int \<Rightarrow> int" where
  \<comment> \<open>day number of the proleptic Gregorian date year \<open>y\<close>, month \<open>m\<close> (1 to 12), day \<open>d\<close>\<close>
  "days_from_civil y m d =
     (let y' = (if m \<le> 2 then y - 1 else y);
          era = y' div 400;
          yoe = y' mod 400;
          mp = (m + 9) mod 12;
          doy = (153 * mp + 2) div 5 + d - 1;
          doe = yoe * 365 + yoe div 4 - yoe div 100 + doy
      in era * 146097 + doe - 719468)"

definition civil_from_days :: "int \<Rightarrow> int \<times> int \<times> int" where
  "civil_from_days z =
     (let z' = z + 719468;
          era = z' div 146097;
          doe = z' mod 146097;
          yoe = (doe - doe div 1460 + doe div 36524 - doe div 146096) div 365;
          doy = doe - (365 * yoe + yoe div 4 - yoe div 100);
          mp = (5 * doy + 2) div 153;
          d = doy - (153 * mp + 2) div 5 + 1;
          m = (if mp < 10 then mp + 3 else mp - 9);
          y = yoe + era * 400
      in (if m \<le> 2 then y + 1 else y, m, d))"

fun getFullYear :: "date \<Rightarrow> int" where
  "getFullYear (Day z) = fst (civil_from_days z)"

fun getMonth :: "date \<Rightarrow> int" where
  \<comment> \<open>0 is January\<close>
  "getMonth (Day z) = fst (snd (civil_from_days z)) - 1"

fun getDate :: "date \<Rightarrow> int" where
  "getDate (Day z) = snd (snd (civil_from_days z))"

fun getDay :: "date \<Rightarrow> int" where
  \<comment> \<open>0 is Sunday; 1970-01-01 was a Thursday\<close>
  "getDay (Day z) = (z + 4) mod 7"

definition MakeDay :: "int \<Rightarrow> int \<Rightarrow> int \<Rightarrow> date" where
  \<comment> \<open>the Date of year \<open>y\<close>, month index \<open>m\<close> and day \<open>d\<close>, both carried over when out of range\<close>
  "MakeDay y m d = Day (days_from_civil (y + m div 12) (m mod 12 + 1) 1 + d - 1)"

definition lastDayOfMonth :: "date \<Rightarrow> date" where
  "lastDayOfMonth date = MakeDay (getFullYear date) (getMonth date + 1) 0"

definition lastDayOfWeek :: "date \<Rightarrow> date" where
  "lastDayOfWeek date =
     (let day = getDay date; diff = 6 - day
      in MakeDay (getFullYear date) (getMonth date) (getDate date + diff))"

definition lastDayOfQuarter :: "date \<Rightarrow> date" where
  "lastDayOfQuarter date =
     (let currentMonth = getMonth date; month = currentMonth - currentMonth mod 3 + 3
      in MakeDay (getFullYear date) month 0)"

definition lastDayOfYear :: "date \<Rightarrow> date" where
  "lastDayOfYear date = MakeDay (getFullYear date + 1) 0 0"

definition digit_char :: "nat \<Rightarrow> char" where
  "digit_char n = ''0123456789'' ! n"

fun decimal :: "nat \<Rightarrow> string" where
  "decimal n = (if n < 10 then [digit_char n] else decimal (n div 10) @ [digit_char (n mod 10)])"

declare decimal.simps [simp del]

definition addLeadingZeros :: "int \<Rightarrow> nat \<Rightarrow> string" where
  "addLeadingZeros number targetLength =
     (let output = decimal (nat \<bar>number\<bar>)
      in replicate (targetLength - length output) CHR ''0'' @ output)"

definition format_YYYY_MM_DD :: "date \<Rightarrow> string" where
  \<comment> \<open>\<open>dateFns.format(date, 'YYYY-MM-DD')\<close>\<close>
  "format_YYYY_MM_DD date =
     addLeadingZeros (getFullYear date) 4 @ ''-'' @
     addLeadingZeros (getMonth date + 1) 2 @ ''-'' @
     addLeadingZeros (getDate date) 2"

section \<open>The resample service\<close>

text \<open>
  A time series is the array of \<open>[date text, value]\<close> pairs of the request body; the
  options are the query parameters, a missing one being \<open>undefined\<close> (\<open>None\<close>). The
  two dispatch tables are objects with exactly the listed own properties.
\<close>

type_synonym timeseries = "(string \<times> jsval) list"

record params =
  resampleFrequency :: "string option"
  resampleFunction :: "string option"

definition FREQUENCY_OPTION_METHOD_INDEX :: "string \<rightharpoonup> (date \<Rightarrow> date)" where
  "FREQUENCY_OPTION_METHOD_INDEX =
     [''monthEnd'' \<mapsto> lastDayOfMonth,
      ''weekEnd'' \<mapsto> lastDayOfWeek,
      ''quarterEnd'' \<mapsto> lastDayOfQuarter,
      ''yearEnd'' \<mapsto> lastDayOfYear]"

definition FUNCTION_OPTION_METHOD_INDEX ::
  "string \<rightharpoonup> (env \<Rightarrow> jsval list \<Rightarrow> js_error + jsval)" where
  "FUNCTION_OPTION_METHOD_INDEX =
     [''min'' \<mapsto> (\<lambda>E values. reduce (js_min E) values),
      ''max'' \<mapsto> (\<lambda>E values. reduce (js_max E) values),
      ''sum'' \<mapsto> (\<lambda>E values. reduce_from (js_plus E) (JNum (Fin 0)) values)]"

definition hasOwnProperty :: "(string \<rightharpoonup> 'a) \<Rightarrow> string \<Rightarrow> bool" where
  "hasOwnProperty obj key = (obj key \<noteq> None)"

definition property :: "(string \<rightharpoonup> 'a) \<Rightarrow> string option \<Rightarrow> 'a option" where
  \<comment> \<open>\<open>obj[key]\<close>; the key \<open>undefined\<close> reads the property named \<open>undefined\<close>\<close>
  "property obj key = (case key of None \<Rightarrow> obj ''undefined'' | Some k \<Rightarrow> obj k)"

definition validateParams :: "params \<Rightarrow> js_error + unit" where
  "validateParams p =
     (if (case resampleFrequency p of None \<Rightarrow> True
          | Some f \<Rightarrow> \<not> hasOwnProperty FREQUENCY_OPTION_METHOD_INDEX f)
      then Inl (Error ''Invalid resampleFrequency paramter'')
      else if (case resampleFunction p of None \<Rightarrow> True
               | Some f \<Rightarrow> \<not> hasOwnProperty FUNCTION_OPTION_METHOD_INDEX f)
      then Inl (Error ''Invalid resampleFunction paramter'')
      else Inr ())"

fun cleanTimeSeries_loop ::
  "env \<Rightarrow> timeseries \<Rightarrow> (date \<times> jsval) list \<Rightarrow> js_error + (date \<times> jsval) list" where
  "cleanTimeSeries_loop E [] cleanedSeries = Inr cleanedSeries"
| "cleanTimeSeries_loop E ((dateRaw, value) # rest) cleanedSeries =
     (case parse E dateRaw of
        None \<Rightarrow> Inl (Error (''Invalid date: '' @ dateRaw))
      | Some date \<Rightarrow>
          if isNaN E value then Inl (Error (''Invalid value: '' @ ToString E value))
          else cleanTimeSeries_loop E rest (cleanedSeries @ [(date, value)]))"

definition cleanTimeSeries :: "env \<Rightarrow> timeseries \<Rightarrow> js_error + (date \<times> jsval) list" where
  "cleanTimeSeries E timeseries = cleanTimeSeries_loop E timeseries []"

fun applyFrequency_loop ::
  "string option \<Rightarrow> (date \<times> jsval) list \<Rightarrow> timeseries \<Rightarrow> js_error + timeseries" where
  "applyFrequency_loop frequencyKey [] updatedTimeSeries = Inr updatedTimeSeries"
| "applyFrequency_loop frequencyKey ((date, value) # rest) updatedTimeSeries =
     (case property FREQUENCY_OPTION_METHOD_INDEX frequencyKey of
        None \<Rightarrow> Inl (TypeError ''changeFrequencyMethod is not a function'')
      | Some changeFrequencyMethod \<Rightarrow>
          let newDate = changeFrequencyMethod date;
              formattedDate = format_YYYY_MM_DD newDate
          in applyFrequency_loop frequencyKey rest
               (updatedTimeSeries @ [(formattedDate, value)]))"

definition applyFrequency ::
  "string option \<Rightarrow> (date \<times> jsval) list \<Rightarrow> js_error + timeseries" where
  "applyFrequency frequencyKey timeseries =
     applyFrequency_loop frequencyKey timeseries []"

text \<open>
  \<open>frequencyGroups\<close> is an object used as a dictionary. Its keys are formatted dates,
  which contain a hyphen: none is an array index and none names an inherited property, so
  \<open>in\<close> is membership among the keys stored so far and \<open>for ... in\<close> visits the
  keys in the order of their first insertion. The object is an association list in that
  order.
\<close>

type_synonym groups = "(string \<times> jsval list) list"

definition key_in :: "string \<Rightarrow> groups \<Rightarrow> bool" where
  "key_in date frequencyGroups = (date \<in> set (map fst frequencyGroups))"

definition push_value :: "groups \<Rightarrow> string \<Rightarrow> jsval \<Rightarrow> groups" where
  \<comment> \<open>\<open>frequencyGroups[date].push(value)\<close>\<close>
  "push_value frequencyGroups date value =
     map (\<lambda>(k, vs). if k = date then (k, vs @ [value]) else (k, vs)) frequencyGroups"

fun group_loop :: "timeseries \<Rightarrow> groups \<Rightarrow> groups" where
  "group_loop [] frequencyGroups = frequencyGroups"
| "group_loop ((date, value) # rest) frequencyGroups =
     (if key_in date frequencyGroups
      then group_loop rest (push_value frequencyGroups date value)
      else group_loop rest (frequencyGroups @ [(date, [value])]))"

fun reduce_loop ::
  "env \<Rightarrow> string option \<Rightarrow> groups \<Rightarrow> timeseries \<Rightarrow> js_error + timeseries" where
  "reduce_loop E functionKey [] updatedTimeSeries = Inr updatedTimeSeries"
| "reduce_loop E functionKey ((dateKey, valueGroup) # rest) updatedTimeSeries =
     (case property FUNCTION_OPTION_METHOD_INDEX functionKey of
        None \<Rightarrow> Inl (TypeError ''resampleFunctionMethod is not a function'')
      | Some resampleFunctionMethod \<Rightarrow>
          (case resampleFunctionMethod E valueGroup of
             Inl e \<Rightarrow> Inl e
           | Inr resampledValue \<Rightarrow>
               reduce_loop E functionKey rest
                 (updatedTimeSeries @ [(dateKey, resampledValue)])))"

definition applyFunction :: "env \<Rightarrow> string option \<Rightarrow> timeseries \<Rightarrow> js_error + timeseries" where
  "applyFunction E functionKey timeseries =
     (let frequencyGroups = group_loop timeseries []
      in reduce_loop E functionKey frequencyGroups [])"

definition resample :: "env \<Rightarrow> timeseries \<Rightarrow> params \<Rightarrow> js_error + timeseries" where
  "resample E timeseries resampleParams =
     (case validateParams resampleParams of
        Inl e \<Rightarrow> Inl e
      | Inr _ \<Rightarrow>
          (case cleanTimeSeries E timeseries of
             Inl e \<Rightarrow> Inl e
           | Inr cleanedSeries \<Rightarrow>
               (case applyFrequency (resampleFrequency resampleParams) cleanedSeries of
                  Inl e \<Rightarrow> Inl e
                | Inr newFrequencyTimeSeries \<Rightarrow>
                    applyFunction E (resampleFunction resampleParams)
                      newFrequencyTimeSeries)))"

section \<open>A sample environment\<close>

text \<open>
  An environment for the concrete examples. Its parser reads the texts written
  \<open>YYYY-MM-DD\<close> the way the date library does, without a range check: the year, month
  and day go to the setter of \<open>Date\<close>, which carries a month or a day out of range over
  (\<open>2017-13-40\<close> is the 9th of February 2018). It reads nothing else: the examples use it
  as the Invalid Date only on a text that is no date in any notation. Its conversions
  agree with the language on the unsigned decimal integers, on \<open>NaN\<close> and on the
  infinities, and give \<open>NaN\<close> elsewhere.
\<close>

definition digit_of :: "char \<Rightarrow> int option" where
  "digit_of =
     map_of [(CHR ''0'', 0), (CHR ''1'', 1), (CHR ''2'', 2), (CHR ''3'', 3), (CHR ''4'', 4),
             (CHR ''5'', 5), (CHR ''6'', 6), (CHR ''7'', 7), (CHR ''8'', 8), (CHR ''9'', 9)]"

fun number_of :: "string \<Rightarrow> int \<Rightarrow> int option" where
  "number_of [] acc = Some acc"
| "number_of (c # cs) acc =
     (case digit_of c of None \<Rightarrow> None | Some d \<Rightarrow> number_of cs (10 * acc + d))"

definition parse_ymd :: "string \<Rightarrow> date option" where
  "parse_ymd s =
     (if length s = 10 \<and> s ! 4 = CHR ''-'' \<and> s ! 7 = CHR ''-'' then
        (case (number_of (take 4 s) 0, number_of (take 2 (drop 5 s)) 0, number_of (drop 8 s) 0) of
           (Some y, Some m, Some d) \<Rightarrow> Some (MakeDay y (m - 1) d)
         | _ \<Rightarrow> None)
      else None)"

definition sample_StringToNumber :: "string \<Rightarrow> jsnum" where
  "sample_StringToNumber s =
     (if s = [] then NaN
      else case number_of s 0 of None \<Rightarrow> NaN | Some n \<Rightarrow> round64 (of_int n))"

fun sample_NumberToString :: "jsnum \<Rightarrow> string" where
  "sample_NumberToString NaN = ''NaN''"
| "sample_NumberToString PInf = ''Infinity''"
| "sample_NumberToString NInf = ''-Infinity''"
| "sample_NumberToString (Fin q) =
     (if 0 \<le> q \<and> q < 10 ^ 21 \<and> of_int \<lfloor>q\<rfloor> = q then decimal (nat \<lfloor>q\<rfloor>) else ''NaN'')"

definition sample_env :: env where
  "sample_env =
     \<lparr>parse = parse_ymd,
      StringToNumber = sample_StringToNumber,
      NumberToString = sample_NumberToString\<rparr>"

section \<open>Notions used in the statements\<close>

text \<open>
  The options are valid when both name an entry of their table; a series is valid when
  the normalizer accepts every entry: the date parses and the value does not coerce to
  \<open>NaN\<close>. The period key of a date text is the formatted end of its period.
\<close>

definition frequency_keys :: "string set" where
  "frequency_keys = {''monthEnd'', ''weekEnd'', ''quarterEnd'', ''yearEnd''}"

definition function_keys :: "string set" where
  "function_keys = {''min'', ''max'', ''sum''}"

definition valid_frequency :: "params \<Rightarrow> bool" where
  "valid_frequency p = (resampleFrequency p \<in> Some ` frequency_keys)"

definition valid_function :: "params \<Rightarrow> bool" where
  "valid_function p = (resampleFunction p \<in> Some ` function_keys)"

definition valid_params :: "params \<Rightarrow> bool" where
  "valid_params p = (valid_frequency p \<and> valid_function p)"

definition valid_entry :: "env \<Rightarrow> string \<times> jsval \<Rightarrow> bool" where
  "valid_entry E x = (parse E (fst x) \<noteq> None \<and> \<not> isNaN E (snd x))"

definition valid_series :: "env \<Rightarrow> timeseries \<Rightarrow> bool" where
  "valid_series E timeseries = list_all (valid_entry E) timeseries"

definition period_key :: "env \<Rightarrow> params \<Rightarrow> string \<Rightarrow> string option" where
  "period_key E p dateRaw =
     (case (property FREQUENCY_OPTION_METHOD_INDEX (resampleFrequency p), parse E dateRaw) of
        (Some changeFrequencyMethod, Some date) \<Rightarrow>
          Some (format_YYYY_MM_DD (changeFrequencyMethod date))
      | _ \<Rightarrow> None)"

definition period_keys :: "env \<Rightarrow> params \<Rightarrow> timeseries \<Rightarrow> string option set" where
  "period_keys E p timeseries = set (map (\<lambda>x. period_key E p (fst x)) timeseries)"

definition values_of :: "string \<Rightarrow> timeseries \<Rightarrow> jsval list" where
  \<comment> \<open>the values of the entries with key \<open>k\<close>, in the order of the series\<close>
  "values_of k ts = map snd (filter (\<lambda>x. fst x = k) ts)"

fun is_finite :: "jsnum \<Rightarrow> bool" where
  "is_finite (Fin q) = True"
| "is_finite n = False"

fun int_value :: "jsval \<Rightarrow> int option" where
  "int_value (JNum (Fin q)) = (if of_int \<lfloor>q\<rfloor> = q then Some \<lfloor>q\<rfloor> else None)"
| "int_value v = None"

definition small_ints :: "jsval list \<Rightarrow> bool" where
  \<comment> \<open>numbers that are integers, the sum of their absolute values at most \<open>2^53\<close>\<close>
  "small_ints vs =
     (list_all (\<lambda>v. int_value v \<noteq> None) vs \<and> (\<Sum>v\<leftarrow>vs. \<bar>the (int_value v)\<bar>) \<le> 2 ^ 53)"

definition small_integers :: "timeseries \<Rightarrow> bool" where
  "small_integers ts = small_ints (map snd ts)"

fun is_double :: "jsval \<Rightarrow> bool" where
  \<comment> \<open>a number that rounding leaves unchanged, or an infinity\<close>
  "is_double (JNum (Fin q)) = (round64 q = Fin q)"
| "is_double (JNum NaN) = False"
| "is_double (JNum n) = True"
| "is_double v = False"

definition keyed :: "env \<Rightarrow> (date \<Rightarrow> date) \<Rightarrow> timeseries \<Rightarrow> timeseries" where
  \<comment> \<open>a valid series with every date text replaced by its period key\<close>
  "keyed E m ts = map (\<lambda>x. (format_YYYY_MM_DD (m (the (parse E (fst x)))), snd x)) ts"

definition example_series :: timeseries where
  \<comment> \<open>the values 22.5, 10.0 and 44.5\<close>
  "example_series =
     [(''2017-05-05'', JNum (Fin (45 / 2))),
      (''2017-05-20'', JNum (Fin 10)),
      (''2017-10-10'', JNum (Fin (89 / 2)))]"

definition monthEnd_sum :: params where
  "monthEnd_sum = \<lparr>resampleFrequency = Some ''monthEnd'', resampleFunction = Some ''sum''\<rparr>"

definition big_first :: timeseries where
  \<comment> \<open>9007199254740992 is \<open>2^53\<close>\<close>
  "big_first =
     [(''2017-05-05'', JNum (Fin 9007199254740992)),
      (''2017-05-20'', JNum (Fin 1)),
      (''2017-05-20'', JNum (Fin 1))]"

definition big_last :: timeseries where
  "big_last =
     [(''2017-05-20'', JNum (Fin 1)),
      (''2017-05-20'', JNum (Fin 1)),
      (''2017-05-05'', JNum (Fin 9007199254740992))]"

section \<open>Rounding\<close>

lemma pow2_pos: "0 < pow2 e"
  by (simp add: pow2_def)

lemma pow2_nonneg_exp: "0 \<le> e \<Longrightarrow> pow2 e = 2 ^ nat e"
  by (simp add: pow2_def)

lemma pow2_neg_exp: "e \<le> 0 \<Longrightarrow> pow2 e = 1 / 2 ^ nat (- e)"
  by (cases "e = 0") (simp_all add: pow2_def)

lemma floor_log2_nonneg:
  assumes "0 \<le> e" "2 ^ nat e \<le> q" "q < 2 ^ nat (e + 1)"
  shows "floor_log2 q = e"
proof -
  have q1: "1 \<le> q" using assms(2) one_le_power[of "2::real" "nat e"] by linarith
  have up: "\<lfloor>q\<rfloor> < 2 ^ nat (e + 1)"
    using assms(3) by (simp add: floor_less_iff)
  have lo: "2 ^ nat e \<le> \<lfloor>q\<rfloor>"
    using assms(2) by (simp add: le_floor_iff)
  have "bitlen \<lfloor>q\<rfloor> \<le> e + 1"
    using up assms(1) by (simp add: bitlen_le_iff_power)
  moreover have "e + 1 \<le> bitlen \<lfloor>q\<rfloor>"
    using lo assms(1) by (simp add: bitlen_ge_iff_power nat_add_distrib)
  ultimately show ?thesis using q1 by (simp add: floor_log2_def)
qed

lemma floor_log2_neg:
  assumes "0 < k" "1 / 2 ^ nat k \<le> q" "q < 1 / 2 ^ (nat k - 1)"
  shows "floor_log2 q = - k"
proof -
  have qpos: "0 < q" using assms(2) by (smt (verit) divide_pos_pos zero_less_power)
  have "1 / 2 ^ (nat k - 1) \<le> (1::real)" by simp
  then have q1: "\<not> 1 \<le> q" using assms(3) by linarith
  have "1 / q \<le> 2 ^ nat k"
    using assms(2) qpos by (simp add: field_simps)
  then have "\<lceil>1 / q\<rceil> \<le> 2 ^ nat k" by (simp add: ceiling_le_iff)
  then have up: "\<lceil>1 / q\<rceil> - 1 < 2 ^ nat k" by linarith
  have "2 ^ (nat k - 1) < 1 / q"
    using assms(3) qpos by (simp add: field_simps)
  then have "2 ^ (nat k - 1) < \<lceil>1 / q\<rceil>" by (simp add: less_ceiling_iff)
  then have lo: "2 ^ (nat k - 1) \<le> \<lceil>1 / q\<rceil> - 1" by linarith
  have "bitlen (\<lceil>1 / q\<rceil> - 1) \<le> k"
    using up assms(1) by (simp add: bitlen_le_iff_power)
  moreover have "k \<le> bitlen (\<lceil>1 / q\<rceil> - 1)"
    using lo by (simp add: bitlen_ge_iff_power)
  ultimately show ?thesis using q1 by (simp add: floor_log2_def)
qed

lemma floor_log2_eqI:
  assumes "pow2 e \<le> q" "q < pow2 (e + 1)"
  shows "floor_log2 q = e"
proof (cases "0 \<le> e")
  case True
  then show ?thesis using assms floor_log2_nonneg[of e q] by (simp add: pow2_def)
next
  case False
  then have k: "0 < - e" by simp
  have a: "1 / 2 ^ nat (- e) \<le> q" using assms(1) False by (simp add: pow2_def)
  have "pow2 (e + 1) = 1 / 2 ^ (nat (- e) - 1)"
    using False by (simp add: pow2_neg_exp nat_diff_distrib)
  then have b: "q < 1 / 2 ^ (nat (- e) - 1)" using assms(2) by simp
  show ?thesis using floor_log2_neg[OF k a b] by simp
qed

lemma round_half_even_of_int: "round_half_even (of_int m) = m"
  by (simp add: round_half_even_def)

lemma round64_eval:
  assumes "q \<noteq> 0" "pow2 e \<le> \<bar>q\<bar>" "\<bar>q\<bar> < pow2 (e + 1)" "- 1022 \<le> e"
    and "round_half_even (\<bar>q\<bar> / pow2 (e - 52)) = n"
    and "of_int n * pow2 (e - 52) < 2 ^ 1024"
  shows "round64 q = Fin (if 0 < q then of_int n * pow2 (e - 52) else - (of_int n * pow2 (e - 52)))"
proof -
  have fl: "floor_log2 \<bar>q\<bar> = e" using assms(2,3) by (rule floor_log2_eqI)
  have mx: "max e (- 1022) = e" using assms(4) by simp
  show ?thesis
    unfolding round64_def Let_def fl mx assms(5) using assms(1,6) by (simp add: not_le)
qed

lemma round64_of_int:
  assumes "\<bar>n\<bar> \<le> 2 ^ 53"
  shows "round64 (of_int n) = Fin (of_int n)"
proof (cases "n = 0")
  case True
  then show ?thesis by (simp add: round64_def)
next
  case False
  define a where "a = \<bar>n\<bar>"
  define e where "e = bitlen a - 1"
  have apos: "0 < a" using False by (simp add: a_def)
  have b: "2 ^ nat e \<le> a" "a < 2 ^ nat (bitlen a)"
    using bitlen_bounds[OF apos] by (simp_all add: e_def)
  have e0: "0 \<le> e" using apos bitlen_eq_zero_iff[of a] bitlen_nonneg[of a] by (simp add: e_def)
  have "(2::int) ^ nat e \<le> 2 ^ 53" using b(1) assms unfolding a_def by linarith
  then have "nat e \<le> 53" by (rule power_le_imp_le_exp[rotated]) simp
  then have e53: "e \<le> 53" by simp
  have lo: "pow2 e \<le> \<bar>real_of_int n\<bar>"
  proof -
    have "real_of_int (2 ^ nat e) \<le> real_of_int a" using b(1) by (simp only: of_int_le_iff)
    then show ?thesis using e0 by (simp add: pow2_def a_def)
  qed
  have hi: "\<bar>real_of_int n\<bar> < pow2 (e + 1)"
  proof -
    have "real_of_int a < real_of_int (2 ^ nat (bitlen a))" using b(2) by (simp only: of_int_less_iff)
    moreover have "nat (bitlen a) = nat (e + 1)" by (simp add: e_def)
    ultimately show ?thesis using e0 by (simp add: pow2_def a_def)
  qed
  have "\<exists>m. \<bar>real_of_int n\<bar> / pow2 (e - 52) = real_of_int m"
  proof (cases "e \<le> 52")
    case True
    then have "pow2 (e - 52) = 1 / 2 ^ nat (52 - e)" by (simp add: pow2_neg_exp)
    then have "\<bar>real_of_int n\<bar> / pow2 (e - 52) = real_of_int (a * 2 ^ nat (52 - e))"
      by (simp add: a_def)
    then show ?thesis by blast
  next
    case False
    then have e: "e = 53" using e53 by simp
    then have "a = 2 ^ 53" using b(1) assms by (simp add: a_def)
    then have "\<bar>real_of_int n\<bar> / pow2 (e - 52) = real_of_int (2 ^ 52)"
      using e by (simp add: pow2_def a_def)
    then show ?thesis by blast
  qed
  then obtain m where m: "\<bar>real_of_int n\<bar> / pow2 (e - 52) = real_of_int m" by blast
  have r: "round_half_even (\<bar>real_of_int n\<bar> / pow2 (e - 52)) = m"
    by (simp add: m round_half_even_of_int)
  have v: "real_of_int m * pow2 (e - 52) = \<bar>real_of_int n\<bar>"
    using m pow2_pos[of "e - 52"] by (simp add: field_simps)
  have "\<bar>real_of_int n\<bar> \<le> 2 ^ 53" using assms
    by (metis of_int_abs of_int_le_numeral_power_cancel_iff)
  then have small: "real_of_int m * pow2 (e - 52) < 2 ^ 1024" using v by simp
  have n0: "real_of_int n \<noteq> 0" using False by simp
  have "round64 (of_int n) = Fin (if 0 < real_of_int n then real_of_int m * pow2 (e - 52)
          else - (real_of_int m * pow2 (e - 52)))"
    using round64_eval[OF n0 lo hi _ r small] e0 by simp
  then show ?thesis using v by (simp split: if_splits)
qed

section \<open>The stages of the service\<close>

subsection \<open>Validation\<close>

lemma FREQUENCY_keys: "FREQUENCY_OPTION_METHOD_INDEX f \<noteq> None \<longleftrightarrow> f \<in> frequency_keys"
  by (simp add: FREQUENCY_OPTION_METHOD_INDEX_def frequency_keys_def)

lemma FUNCTION_keys: "FUNCTION_OPTION_METHOD_INDEX f \<noteq> None \<longleftrightarrow> f \<in> function_keys"
  by (simp add: FUNCTION_OPTION_METHOD_INDEX_def function_keys_def)

lemma validateParams_frequency:
  "\<not> valid_frequency p \<Longrightarrow> validateParams p = Inl (Error ''Invalid resampleFrequency paramter'')"
  using FREQUENCY_keys
  by (auto simp: validateParams_def valid_frequency_def hasOwnProperty_def image_iff
      split: option.splits)

lemma validateParams_function:
  "valid_frequency p \<Longrightarrow> \<not> valid_function p \<Longrightarrow>
   validateParams p = Inl (Error ''Invalid resampleFunction paramter'')"
  using FREQUENCY_keys FUNCTION_keys
  by (auto simp: validateParams_def valid_frequency_def valid_function_def hasOwnProperty_def
      image_iff split: option.splits)

lemma validateParams_valid: "valid_params p \<Longrightarrow> validateParams p = Inr ()"
  using FREQUENCY_keys FUNCTION_keys
  by (auto simp: validateParams_def valid_params_def valid_frequency_def valid_function_def
      hasOwnProperty_def image_iff split: option.splits)

lemma valid_params_methods:
  assumes "valid_params p"
  obtains f m h a where "resampleFrequency p = Some f" "FREQUENCY_OPTION_METHOD_INDEX f = Some m"
    "resampleFunction p = Some h" "FUNCTION_OPTION_METHOD_INDEX h = Some a"
proof -
  from assms obtain f h where fh: "resampleFrequency p = Some f" "f \<in> frequency_keys"
    "resampleFunction p = Some h" "h \<in> function_keys"
    by (auto simp: valid_params_def valid_frequency_def valid_function_def image_iff)
  obtain m where m: "FREQUENCY_OPTION_METHOD_INDEX f = Some m"
    using FREQUENCY_keys[of f] fh(2) by auto
  obtain a where a: "FUNCTION_OPTION_METHOD_INDEX h = Some a"
    using FUNCTION_keys[of h] fh(4) by auto
  show thesis using that[OF fh(1) m fh(3) a] .
qed

subsection \<open>The normalizer\<close>

lemma clean_loop_valid:
  "valid_series E ts \<Longrightarrow>
   cleanTimeSeries_loop E ts acc = Inr (acc @ map (\<lambda>x. (the (parse E (fst x)), snd x)) ts)"
  by (induction ts arbitrary: acc) (auto simp: valid_series_def valid_entry_def)

lemma clean_loop_Inr:
  "cleanTimeSeries_loop E ts acc = Inr ps \<Longrightarrow> valid_series E ts"
  by (induction ts arbitrary: acc)
     (auto simp: valid_series_def valid_entry_def split: option.splits if_splits)

lemma clean_loop_invalid:
  "\<not> valid_series E ts \<Longrightarrow> \<exists>e. cleanTimeSeries_loop E ts acc = Inl e"
  using clean_loop_Inr[of E ts acc] by (cases "cleanTimeSeries_loop E ts acc") auto

lemma clean_loop_bad_date:
  "valid_series E pre \<Longrightarrow> parse E d = None \<Longrightarrow>
   cleanTimeSeries_loop E (pre @ (d, v) # post) acc = Inl (Error (''Invalid date: '' @ d))"
  by (induction pre arbitrary: acc) (auto simp: valid_series_def valid_entry_def)

lemma clean_loop_bad_value:
  "valid_series E pre \<Longrightarrow> parse E d \<noteq> None \<Longrightarrow> isNaN E v \<Longrightarrow>
   cleanTimeSeries_loop E (pre @ (d, v) # post) acc =
     Inl (Error (''Invalid value: '' @ ToString E v))"
  by (induction pre arbitrary: acc) (auto simp: valid_series_def valid_entry_def)

subsection \<open>Period assignment\<close>

lemma applyFrequency_loop_ok:
  "property FREQUENCY_OPTION_METHOD_INDEX key = Some m \<Longrightarrow>
   applyFrequency_loop key ds acc =
     Inr (acc @ map (\<lambda>x. (format_YYYY_MM_DD (m (fst x)), snd x)) ds)"
  by (induction ds arbitrary: acc) auto

subsection \<open>Grouping\<close>

lemma format_has_hyphen: "CHR ''-'' \<in> set (format_YYYY_MM_DD date)"
  by (simp add: format_YYYY_MM_DD_def)

lemma group_loop_append: "group_loop (xs @ ys) g = group_loop ys (group_loop xs g)"
  by (induction xs arbitrary: g) auto

lemma map_fst_push_value: "map fst (push_value g d v) = map fst g"
  by (induction g) (auto simp: push_value_def)

lemma set_push_value:
  "set (push_value g d v) = (\<lambda>(k, vs). if k = d then (k, vs @ [v]) else (k, vs)) ` set g"
  by (simp add: push_value_def)

lemma values_of_snoc:
  "values_of k (ts @ [(d, v)]) = (if d = k then values_of k ts @ [v] else values_of k ts)"
  by (simp add: values_of_def)

lemma group_loop_inv:
  "distinct (map fst (group_loop ts [])) \<and>
   set (map fst (group_loop ts [])) = fst ` set ts \<and>
   (\<forall>k vs. (k, vs) \<in> set (group_loop ts []) \<longrightarrow> vs = values_of k ts)"
proof (induction ts rule: rev_induct)
  case Nil
  then show ?case by simp
next
  case (snoc x ts)
  obtain d v where x: "x = (d, v)" by (cases x)
  let ?g = "group_loop ts []"
  from snoc have ih1: "distinct (map fst ?g)"
    and ih2: "set (map fst ?g) = fst ` set ts"
    and ih3: "\<And>k vs. (k, vs) \<in> set ?g \<Longrightarrow> vs = values_of k ts"
    by blast+
  show ?case
  proof (cases "key_in d ?g")
    case True
    then have g': "group_loop (ts @ [x]) [] = push_value ?g d v"
      by (simp add: group_loop_append x)
    have din: "d \<in> fst ` set ts" using True ih2 by (simp add: key_in_def)
    have 1: "distinct (map fst (push_value ?g d v))"
      using ih1 by (simp add: map_fst_push_value)
    have 2: "set (map fst (push_value ?g d v)) = fst ` set (ts @ [x])"
      using ih2 din by (auto simp: map_fst_push_value x)
    have 3: "vs = values_of k (ts @ [x])" if "(k, vs) \<in> set (push_value ?g d v)" for k vs
    proof -
      from that obtain k0 vs0 where o: "(k0, vs0) \<in> set ?g"
        "(k, vs) = (if k0 = d then (k0, vs0 @ [v]) else (k0, vs0))"
        by (auto simp: set_push_value)
      then show ?thesis using ih3[OF o(1)] by (auto simp: x values_of_snoc split: if_splits)
    qed
    show ?thesis unfolding g' using 1 2 3 by blast
  next
    case False
    then have g': "group_loop (ts @ [x]) [] = ?g @ [(d, [v])]"
      by (simp add: group_loop_append x)
    have nd: "d \<notin> fst ` set ts" using False ih2 by (simp add: key_in_def)
    have nd': "d \<notin> set (map fst ?g)" using False by (simp add: key_in_def)
    have e: "values_of d ts = []" using nd by (auto simp: values_of_def filter_empty_conv)
    have 1: "distinct (map fst (?g @ [(d, [v])]))" using ih1 nd' by simp
    have 2: "set (map fst (?g @ [(d, [v])])) = fst ` set (ts @ [x])"
      using ih2 by (auto simp: x)
    have 3: "vs = values_of k (ts @ [x])" if "(k, vs) \<in> set (?g @ [(d, [v])])" for k vs
    proof (cases "(k, vs) \<in> set ?g")
      case True
      then have "k \<noteq> d" using nd' by force
      then show ?thesis using ih3[OF True] by (simp add: x values_of_snoc)
    next
      case False
      then have "k = d" "vs = [v]" using that by auto
      then show ?thesis using e by (simp add: x values_of_snoc)
    qed
    show ?thesis unfolding g' using 1 2 3 by blast
  qed
qed

lemma group_loop_keys: "set (map fst (group_loop ts [])) = fst ` set ts"
  using group_loop_inv[of ts] by blast

lemma group_loop_distinct: "distinct (map fst (group_loop ts []))"
  using group_loop_inv[of ts] by blast

lemma group_loop_values: "(k, vs) \<in> set (group_loop ts []) \<Longrightarrow> vs = values_of k ts"
  using group_loop_inv[of ts] by blast

lemma group_loop_length: "length (group_loop ts []) = card (fst ` set ts)"
  using distinct_card[OF group_loop_distinct[of ts]] group_loop_keys[of ts] by simp

lemma group_loop_nonempty: "(k, vs) \<in> set (group_loop ts []) \<Longrightarrow> vs \<noteq> []"
proof -
  assume a: "(k, vs) \<in> set (group_loop ts [])"
  then have "k \<in> fst ` set ts" using group_loop_keys[of ts] by force
  then have "values_of k ts \<noteq> []" by (auto simp: values_of_def filter_empty_conv)
  then show ?thesis using group_loop_values[OF a] by simp
qed

lemma group_loop_set:
  "set (group_loop ts []) = (\<lambda>k. (k, values_of k ts)) ` fst ` set ts"
proof -
  have "set (group_loop ts []) = (\<lambda>k. (k, values_of k ts)) ` set (map fst (group_loop ts []))"
    using group_loop_values[of _ _ ts] by (force simp: image_iff)
  then show ?thesis by (simp only: group_loop_keys)
qed

subsection \<open>Reduction\<close>

lemma reduce_loop_ok:
  "property FUNCTION_OPTION_METHOD_INDEX key = Some a \<Longrightarrow>
   \<forall>(k, vs) \<in> set g. \<exists>r. a E vs = Inr r \<Longrightarrow>
   reduce_loop E key g acc = Inr (acc @ map (\<lambda>(k, vs). (k, projr (a E vs))) g)"
  by (induction g arbitrary: acc) auto

lemma reduce_loop_not_TypeError_reduce:
  "\<forall>(k, vs) \<in> set g. vs \<noteq> [] \<Longrightarrow>
   reduce_loop E key g acc \<noteq> Inl (TypeError ''Reduce of empty array with no initial value'')"
proof (induction g arbitrary: acc)
  case Nil
  then show ?case by simp
next
  case (Cons x g)
  obtain k vs where x: "x = (k, vs)" by (cases x)
  obtain y ys where vs: "vs = y # ys" using Cons.prems x by (cases vs) auto
  show ?case using Cons
    by (auto simp: x vs property_def FUNCTION_OPTION_METHOD_INDEX_def reduce_from_def
        split: option.splits sum.splits if_splits)
qed

lemma methods_total:
  "FUNCTION_OPTION_METHOD_INDEX h = Some a \<Longrightarrow> vs \<noteq> [] \<Longrightarrow> \<exists>r. a E vs = Inr r"
  by (cases vs) (auto simp: FUNCTION_OPTION_METHOD_INDEX_def reduce_from_def split: if_splits)

subsection \<open>The whole operation\<close>

lemma resample_invalid_frequency:
  "\<not> valid_frequency p \<Longrightarrow>
   resample E ts p = Inl (Error ''Invalid resampleFrequency paramter'')"
  by (simp add: resample_def validateParams_frequency)

lemma resample_invalid_function:
  "valid_frequency p \<Longrightarrow> \<not> valid_function p \<Longrightarrow>
   resample E ts p = Inl (Error ''Invalid resampleFunction paramter'')"
  by (simp add: resample_def validateParams_function)

lemma resample_valid:
  assumes "valid_series E ts"
    and "resampleFrequency p = Some f" "FREQUENCY_OPTION_METHOD_INDEX f = Some m"
    and "resampleFunction p = Some h" "FUNCTION_OPTION_METHOD_INDEX h = Some a"
  shows "resample E ts p =
         Inr (map (\<lambda>(k, vs). (k, projr (a E vs))) (group_loop (keyed E m ts) []))"
proof -
  have vp: "valid_params p"
    using assms(2-5) FREQUENCY_keys[of f] FUNCTION_keys[of h]
    by (simp add: valid_params_def valid_frequency_def valid_function_def)
  have 1: "validateParams p = Inr ()" using vp by (rule validateParams_valid)
  have 2: "cleanTimeSeries E ts = Inr (map (\<lambda>x. (the (parse E (fst x)), snd x)) ts)"
    using clean_loop_valid[OF assms(1), of "[]"] by (simp add: cleanTimeSeries_def)
  have 3: "applyFrequency (resampleFrequency p) (map (\<lambda>x. (the (parse E (fst x)), snd x)) ts)
           = Inr (keyed E m ts)"
    using applyFrequency_loop_ok[of "Some f" m _ "[]"] assms(2,3)
    by (simp add: applyFrequency_def property_def keyed_def comp_def)
  have "\<forall>(k, vs) \<in> set (group_loop (keyed E m ts) []). \<exists>r. a E vs = Inr r"
    using group_loop_nonempty methods_total[OF assms(5)] by blast
  then have 4: "applyFunction E (resampleFunction p) (keyed E m ts) =
           Inr (map (\<lambda>(k, vs). (k, projr (a E vs))) (group_loop (keyed E m ts) []))"
    using reduce_loop_ok[of "Some h" a _ E "[]"] assms(4,5)
    by (simp add: applyFunction_def property_def)
  show ?thesis by (simp add: resample_def 1 2 3 4)
qed

lemma period_key_valid:
  "resampleFrequency p = Some f \<Longrightarrow> FREQUENCY_OPTION_METHOD_INDEX f = Some m \<Longrightarrow>
   valid_entry E x \<Longrightarrow>
   period_key E p (fst x) = Some (format_YYYY_MM_DD (m (the (parse E (fst x)))))"
  by (auto simp: period_key_def property_def valid_entry_def)

lemma period_keys_keyed:
  assumes "resampleFrequency p = Some f" "FREQUENCY_OPTION_METHOD_INDEX f = Some m"
    and "valid_series E ts"
  shows "period_keys E p ts = Some ` fst ` set (keyed E m ts)"
proof -
  have "\<And>x. x \<in> set ts \<Longrightarrow> valid_entry E x"
    using assms(3) by (simp add: valid_series_def list_all_iff)
  then have "\<And>x. x \<in> set ts \<Longrightarrow>
      period_key E p (fst x) = Some (format_YYYY_MM_DD (m (the (parse E (fst x)))))"
    using period_key_valid[OF assms(1,2)] by blast
  then show ?thesis by (force simp: period_keys_def keyed_def image_iff)
qed

lemma clean_loop_error:
  "cleanTimeSeries_loop E ts acc = Inl e \<Longrightarrow> \<exists>s. e = Error s"
  by (induction ts arbitrary: acc) (auto split: option.splits if_splits)

lemma applyFrequency_loop_error:
  "applyFrequency_loop key ds acc = Inl e \<Longrightarrow>
   e = TypeError ''changeFrequencyMethod is not a function''"
  by (induction ds arbitrary: acc) (auto split: option.splits)

lemma resample_not_reduce_error:
  "resample E ts p \<noteq> Inl (TypeError ''Reduce of empty array with no initial value'')"
proof (cases "validateParams p")
  case (Inl e)
  then show ?thesis by (auto simp: resample_def validateParams_def split: if_splits)
next
  case (Inr u)
  show ?thesis
  proof (cases "cleanTimeSeries E ts")
    case (Inl e)
    then have "e \<noteq> TypeError ''Reduce of empty array with no initial value''"
      using clean_loop_error[of E ts "[]" e] by (auto simp: cleanTimeSeries_def)
    then show ?thesis using Inr Inl by (simp add: resample_def)
  next
    case c: (Inr cs)
    show ?thesis
    proof (cases "applyFrequency (resampleFrequency p) cs")
      case (Inl e)
      then have "e = TypeError ''changeFrequencyMethod is not a function''"
        using applyFrequency_loop_error[of "resampleFrequency p" cs "[]" e]
        by (simp add: applyFrequency_def)
      then show ?thesis using Inl \<open>validateParams p = Inr u\<close> c by (simp add: resample_def)
    next
      case (Inr ks)
      then show ?thesis using \<open>validateParams p = Inr u\<close> c
          reduce_loop_not_TypeError_reduce[of "group_loop ks []" E "resampleFunction p" "[]"]
          group_loop_nonempty[of _ _ ks]
        by (auto simp: resample_def applyFunction_def)
    qed
  qed
qed

subsection \<open>Minimum and maximum do not depend on the order\<close>

lemma num_less_total: "x \<noteq> NaN \<Longrightarrow> y \<noteq> NaN \<Longrightarrow> x \<noteq> y \<Longrightarrow> num_less x y \<or> num_less y x"
  by (cases x; cases y) auto

lemma num_less_le_trans:
  "\<not> num_less x w \<Longrightarrow> num_less x r \<Longrightarrow> w \<noteq> NaN \<Longrightarrow> num_less w r"
  by (cases x; cases w; cases r) auto

lemma num_le_less_trans:
  "\<not> num_less w x \<Longrightarrow> num_less r x \<Longrightarrow> w \<noteq> NaN \<Longrightarrow> num_less r w"
  by (cases x; cases w; cases r) auto

lemma Math_min_cases: "x \<noteq> NaN \<Longrightarrow> y \<noteq> NaN \<Longrightarrow>
  (Math_min x y = x \<or> Math_min x y = y) \<and> \<not> num_less x (Math_min x y) \<and>
  \<not> num_less y (Math_min x y)"
  by (cases x; cases y) (auto simp: Math_min_def)

lemma Math_max_cases: "x \<noteq> NaN \<Longrightarrow> y \<noteq> NaN \<Longrightarrow>
  (Math_max x y = x \<or> Math_max x y = y) \<and> \<not> num_less (Math_max x y) x \<and>
  \<not> num_less (Math_max x y) y"
  by (cases x; cases y) (auto simp: Math_max_def)

lemma foldl_Math_min_least:
  "NaN \<notin> set (x # xs) \<Longrightarrow>
   foldl Math_min x xs \<in> set (x # xs) \<and>
   (\<forall>y \<in> set (x # xs). \<not> num_less y (foldl Math_min x xs))"
proof (induction xs arbitrary: x)
  case Nil
  then show ?case by (cases x) auto
next
  case (Cons a xs)
  let ?w = "Math_min x a"
  let ?r = "foldl Math_min ?w xs"
  have xa: "x \<noteq> NaN" "a \<noteq> NaN" using Cons.prems by auto
  have w: "(?w = x \<or> ?w = a) \<and> \<not> num_less x ?w \<and> \<not> num_less a ?w"
    using Math_min_cases[OF xa] .
  then have wn: "?w \<noteq> NaN" using xa by auto
  then have "NaN \<notin> set (?w # xs)" using Cons.prems by auto
  then have ih: "?r \<in> set (?w # xs)" "\<forall>y \<in> set (?w # xs). \<not> num_less y ?r"
    using Cons.IH[of ?w] by blast+
  have 1: "?r \<in> set (x # a # xs)" using ih(1) w by auto
  have "\<not> num_less ?w ?r" using ih(2) by simp
  then have 2: "\<not> num_less x ?r" "\<not> num_less a ?r"
    using w wn num_less_le_trans[of x ?w ?r] num_less_le_trans[of a ?w ?r] by blast+
  show ?case using 1 2 ih(2) by simp
qed

lemma foldl_Math_max_greatest:
  "NaN \<notin> set (x # xs) \<Longrightarrow>
   foldl Math_max x xs \<in> set (x # xs) \<and>
   (\<forall>y \<in> set (x # xs). \<not> num_less (foldl Math_max x xs) y)"
proof (induction xs arbitrary: x)
  case Nil
  then show ?case by (cases x) auto
next
  case (Cons a xs)
  let ?w = "Math_max x a"
  let ?r = "foldl Math_max ?w xs"
  have xa: "x \<noteq> NaN" "a \<noteq> NaN" using Cons.prems by auto
  have w: "(?w = x \<or> ?w = a) \<and> \<not> num_less ?w x \<and> \<not> num_less ?w a"
    using Math_max_cases[OF xa] .
  then have wn: "?w \<noteq> NaN" using xa by auto
  then have "NaN \<notin> set (?w # xs)" using Cons.prems by auto
  then have ih: "?r \<in> set (?w # xs)" "\<forall>y \<in> set (?w # xs). \<not> num_less ?r y"
    using Cons.IH[of ?w] by blast+
  have 1: "?r \<in> set (x # a # xs)" using ih(1) w by auto
  have "\<not> num_less ?r ?w" using ih(2) by simp
  then have 2: "\<not> num_less ?r x" "\<not> num_less ?r a"
    using w wn num_le_less_trans[of ?w x ?r] num_le_less_trans[of ?w a ?r] by blast+
  show ?case using 1 2 ih(2) by simp
qed

lemma foldl_Math_min_set:
  assumes "set (x # xs) = set (y # ys)" "NaN \<notin> set (x # xs)"
  shows "foldl Math_min x xs = foldl Math_min y ys"
proof -
  let ?a = "foldl Math_min x xs" and ?b = "foldl Math_min y ys"
  have n: "NaN \<notin> set (y # ys)" using assms by simp
  have a: "?a \<in> set (x # xs)" "\<forall>z \<in> set (x # xs). \<not> num_less z ?a"
    using foldl_Math_min_least[OF assms(2)] by blast+
  have b: "?b \<in> set (y # ys)" "\<forall>z \<in> set (y # ys). \<not> num_less z ?b"
    using foldl_Math_min_least[OF n] by blast+
  have ba: "?b \<in> set (x # xs)" using b(1) by (simp only: assms(1))
  have ab: "?a \<in> set (y # ys)" using a(1) by (simp only: assms(1))
  have "\<not> num_less ?b ?a" "\<not> num_less ?a ?b" using a(2) b(2) ba ab by blast+
  moreover have "?a \<noteq> NaN" "?b \<noteq> NaN" using a(1) ba assms(2) by metis+
  ultimately show ?thesis using num_less_total by blast
qed

lemma foldl_Math_max_set:
  assumes "set (x # xs) = set (y # ys)" "NaN \<notin> set (x # xs)"
  shows "foldl Math_max x xs = foldl Math_max y ys"
proof -
  let ?a = "foldl Math_max x xs" and ?b = "foldl Math_max y ys"
  have n: "NaN \<notin> set (y # ys)" using assms by simp
  have a: "?a \<in> set (x # xs)" "\<forall>z \<in> set (x # xs). \<not> num_less ?a z"
    using foldl_Math_max_greatest[OF assms(2)] by blast+
  have b: "?b \<in> set (y # ys)" "\<forall>z \<in> set (y # ys). \<not> num_less ?b z"
    using foldl_Math_max_greatest[OF n] by blast+
  have ba: "?b \<in> set (x # xs)" using b(1) by (simp only: assms(1))
  have ab: "?a \<in> set (y # ys)" using a(1) by (simp only: assms(1))
  have "\<not> num_less ?b ?a" "\<not> num_less ?a ?b" using a(2) b(2) ba ab by blast+
  moreover have "?a \<noteq> NaN" "?b \<noteq> NaN" using a(1) ba assms(2) by metis+
  ultimately show ?thesis using num_less_total by blast
qed

lemma foldl_js_min:
  "foldl (js_min E) (JNum n) vs = JNum (foldl Math_min n (map (ToNumber E) vs))"
  by (induction vs arbitrary: n) (simp_all add: js_min_def)

lemma foldl_js_max:
  "foldl (js_max E) (JNum n) vs = JNum (foldl Math_max n (map (ToNumber E) vs))"
  by (induction vs arbitrary: n) (simp_all add: js_max_def)

lemma reduce_js_min_two:
  "reduce (js_min E) (x # y # ys) =
   Inr (JNum (foldl Math_min (ToNumber E x) (map (ToNumber E) (y # ys))))"
  using foldl_js_min[of E "Math_min (ToNumber E x) (ToNumber E y)" ys]
  by (simp add: js_min_def)

lemma reduce_js_max_two:
  "reduce (js_max E) (x # y # ys) =
   Inr (JNum (foldl Math_max (ToNumber E x) (map (ToNumber E) (y # ys))))"
  using foldl_js_max[of E "Math_max (ToNumber E x) (ToNumber E y)" ys]
  by (simp add: js_max_def)

lemma perm_shapes:
  assumes "mset (vs'::'a list) = mset vs"
  obtains "vs = []" "vs' = []"
  | x where "vs = [x]" "vs' = [x]"
  | x y ys x' y' ys' where "vs = x # y # ys" "vs' = x' # y' # ys'"
proof -
  have l: "length vs' = length vs" using assms by (metis size_mset)
  show thesis
  proof (cases vs)
    case Nil
    then show ?thesis using that(1) l by simp
  next
    case c: (Cons x xs)
    then obtain x' xs' where c': "vs' = x' # xs'" using l by (cases vs') auto
    show ?thesis
    proof (cases xs)
      case Nil
      then have "xs' = []" using l c c' by simp
      then have "x' = x" using assms c c' Nil by simp
      then show ?thesis using that(2) c c' Nil \<open>xs' = []\<close> by simp
    next
      case (Cons y ys)
      then obtain y' ys' where "xs' = y' # ys'" using l c c' by (cases xs') auto
      then show ?thesis using that(3) c c' Cons by simp
    qed
  qed
qed

lemma reduce_js_min_perm:
  assumes "mset vs' = mset vs" "\<forall>v \<in> set vs. \<not> isNaN E v"
  shows "reduce (js_min E) vs' = reduce (js_min E) vs"
  using assms(1)
proof (cases rule: perm_shapes)
  case 1
  then show ?thesis by simp
next
  case (2 x)
  then show ?thesis by simp
next
  case (3 x y ys x' y' ys')
  have s: "set vs' = set vs" using assms(1) by (rule mset_eq_setD)
  then have "set (map (ToNumber E) vs') = set (map (ToNumber E) vs)" by simp
  then have e: "set (ToNumber E x' # map (ToNumber E) (y' # ys')) =
             set (ToNumber E x # map (ToNumber E) (y # ys))"
    using 3 by simp
  have "NaN \<notin> set (map (ToNumber E) vs')" using assms(2) s by (auto simp: isNaN_def)
  then have n: "NaN \<notin> set (ToNumber E x' # map (ToNumber E) (y' # ys'))" using 3 by simp
  show ?thesis
    unfolding 3 reduce_js_min_two using foldl_Math_min_set[OF e n] by simp
qed

lemma reduce_js_max_perm:
  assumes "mset vs' = mset vs" "\<forall>v \<in> set vs. \<not> isNaN E v"
  shows "reduce (js_max E) vs' = reduce (js_max E) vs"
  using assms(1)
proof (cases rule: perm_shapes)
  case 1
  then show ?thesis by simp
next
  case (2 x)
  then show ?thesis by simp
next
  case (3 x y ys x' y' ys')
  have s: "set vs' = set vs" using assms(1) by (rule mset_eq_setD)
  then have "set (map (ToNumber E) vs') = set (map (ToNumber E) vs)" by simp
  then have e: "set (ToNumber E x' # map (ToNumber E) (y' # ys')) =
             set (ToNumber E x # map (ToNumber E) (y # ys))"
    using 3 by simp
  have "NaN \<notin> set (map (ToNumber E) vs')" using assms(2) s by (auto simp: isNaN_def)
  then have n: "NaN \<notin> set (ToNumber E x' # map (ToNumber E) (y' # ys'))" using 3 by simp
  show ?thesis
    unfolding 3 reduce_js_max_two using foldl_Math_max_set[OF e n] by simp
qed

subsection \<open>Sums of small integers are exact\<close>

lemma int_value_Some: "int_value v = Some n \<Longrightarrow> v = JNum (Fin (of_int n))"
  by (cases v rule: int_value.cases) (auto split: if_splits)

lemma js_plus_ints:
  assumes "\<bar>s + n\<bar> \<le> 2 ^ 53"
  shows "js_plus E (JNum (Fin (of_int s))) (JNum (Fin (of_int n))) = JNum (Fin (of_int (s + n)))"
  using round64_of_int[OF assms] by (simp add: js_plus_def)

lemma foldl_js_plus_ints:
  "list_all (\<lambda>v. int_value v \<noteq> None) vs \<Longrightarrow>
   \<bar>s\<bar> + (\<Sum>v\<leftarrow>vs. \<bar>the (int_value v)\<bar>) \<le> 2 ^ 53 \<Longrightarrow>
   foldl (js_plus E) (JNum (Fin (of_int s))) vs =
     JNum (Fin (of_int (s + (\<Sum>v\<leftarrow>vs. the (int_value v)))))"
proof (induction vs arbitrary: s)
  case Nil
  then show ?case by simp
next
  case (Cons v vs)
  from Cons.prems(1) obtain n where n: "int_value v = Some n" by auto
  then have v: "v = JNum (Fin (of_int n))" by (rule int_value_Some)
  have nn: "0 \<le> (\<Sum>v\<leftarrow>vs. \<bar>the (int_value v)\<bar>)" by (rule sum_list_nonneg) auto
  have b: "\<bar>s + n\<bar> \<le> 2 ^ 53" using Cons.prems(2) n nn by simp
  have step: "js_plus E (JNum (Fin (of_int s))) v = JNum (Fin (of_int (s + n)))"
    unfolding v using b by (rule js_plus_ints)
  have "\<bar>s + n\<bar> + (\<Sum>v\<leftarrow>vs. \<bar>the (int_value v)\<bar>) \<le> 2 ^ 53"
    using Cons.prems(2) n by simp
  then have "foldl (js_plus E) (JNum (Fin (of_int (s + n)))) vs =
     JNum (Fin (of_int (s + n + (\<Sum>v\<leftarrow>vs. the (int_value v)))))"
    using Cons.IH[of "s + n"] Cons.prems(1) by simp
  then show ?case using step n by (simp add: add.assoc)
qed

lemma sum_small_ints:
  assumes "small_ints vs"
  shows "foldl (js_plus E) (JNum (Fin 0)) vs =
         JNum (Fin (of_int (\<Sum>v\<leftarrow>vs. the (int_value v))))"
  using foldl_js_plus_ints[of vs 0 E] assms by (simp add: small_ints_def)

lemma sum_list_mset_cong:
  fixes f :: "'a \<Rightarrow> int"
  shows "mset xs = mset ys \<Longrightarrow> (\<Sum>x\<leftarrow>xs. f x) = (\<Sum>x\<leftarrow>ys. f x)"
  by (metis mset_map sum_mset_sum_list)

lemma small_ints_perm: "mset vs' = mset vs \<Longrightarrow> small_ints vs \<Longrightarrow> small_ints vs'"
  using sum_list_mset_cong[of vs' vs "\<lambda>v. \<bar>the (int_value v)\<bar>"] mset_eq_setD[of vs' vs]
  by (simp add: small_ints_def list_all_iff)

lemma sum_small_ints_perm:
  assumes "mset vs' = mset vs" "small_ints vs"
  shows "foldl (js_plus E) (JNum (Fin 0)) vs' = foldl (js_plus E) (JNum (Fin 0)) vs"
  using sum_small_ints[OF assms(2)] sum_small_ints[OF small_ints_perm[OF assms]]
    sum_list_mset_cong[OF assms(1), of "\<lambda>v. the (int_value v)"]
  by simp

lemma small_ints_filter:
  assumes "small_ints (map snd ts)"
  shows "small_ints (values_of k ts)"
proof -
  let ?P = "\<lambda>x. fst x = k"
  have le: "(\<Sum>v\<leftarrow>map snd (filter ?P ts). \<bar>the (int_value v)\<bar>) \<le>
        (\<Sum>v\<leftarrow>map snd ts. \<bar>the (int_value v)\<bar>)"
    by (induction ts) auto
  have "(\<Sum>v\<leftarrow>map snd ts. \<bar>the (int_value v)\<bar>) \<le> 2 ^ 53"
    using assms by (simp add: small_ints_def)
  then have 1: "(\<Sum>v\<leftarrow>map snd (filter ?P ts). \<bar>the (int_value v)\<bar>) \<le> 2 ^ 53"
    using le by linarith
  have "\<forall>v \<in> set (map snd ts). int_value v \<noteq> None"
    using assms by (simp add: small_ints_def list_all_iff)
  then have 2: "\<forall>v \<in> set (map snd (filter ?P ts)). int_value v \<noteq> None" by auto
  show ?thesis unfolding small_ints_def values_of_def list_all_iff using 1 2 by blast
qed

subsection \<open>The aggregation does not depend on the order\<close>

lemma method_perm:
  assumes "FUNCTION_OPTION_METHOD_INDEX h = Some a" "mset vs' = mset vs"
    and "\<forall>v \<in> set vs. \<not> isNaN E v" "h = ''sum'' \<longrightarrow> small_ints vs"
  shows "a E vs' = a E vs"
proof -
  consider "h = ''min''" "a = (\<lambda>E values. reduce (js_min E) values)"
    | "h = ''max''" "a = (\<lambda>E values. reduce (js_max E) values)"
    | "h = ''sum''" "a = (\<lambda>E values. reduce_from (js_plus E) (JNum (Fin 0)) values)"
    using assms(1) by (auto simp: FUNCTION_OPTION_METHOD_INDEX_def split: if_splits)
  then show ?thesis
  proof cases
    case 1
    then show ?thesis using reduce_js_min_perm[OF assms(2,3)] by simp
  next
    case 2
    then show ?thesis using reduce_js_max_perm[OF assms(2,3)] by simp
  next
    case 3
    then show ?thesis using sum_small_ints_perm[OF assms(2)] assms(4)
      by (simp add: reduce_from_def)
  qed
qed

lemma keyed_values: "map snd (keyed E m ts) = map snd ts"
  by (simp add: keyed_def comp_def)

lemma resample_set:
  assumes "valid_series E ts"
    and "resampleFrequency p = Some f" "FREQUENCY_OPTION_METHOD_INDEX f = Some m"
    and "resampleFunction p = Some h" "FUNCTION_OPTION_METHOD_INDEX h = Some a"
  shows "\<exists>out. resample E ts p = Inr out \<and>
           set out = (\<lambda>k. (k, projr (a E (values_of k (keyed E m ts))))) ` fst ` set (keyed E m ts)"
proof -
  let ?K = "keyed E m ts"
  have "set (map (\<lambda>(k, vs). (k, projr (a E vs))) (group_loop ?K [])) =
        (\<lambda>k. (k, projr (a E (values_of k ?K)))) ` fst ` set ?K"
    by (simp add: group_loop_set image_image)
  then show ?thesis using resample_valid[OF assms] by blast
qed

lemma valid_series_perm: "mset ts' = mset ts \<Longrightarrow> valid_series E ts \<Longrightarrow> valid_series E ts'"
  using mset_eq_setD[of ts' ts] by (simp add: valid_series_def list_all_iff)

lemma resample_single_number:
  assumes "valid_params p" "parse E d \<noteq> None" "is_double v"
  shows "\<exists>k. resample E [(d, v)] p = Inr [(k, v)]"
proof -
  from assms(1) obtain f m h a where o: "resampleFrequency p = Some f"
    "FREQUENCY_OPTION_METHOD_INDEX f = Some m" "resampleFunction p = Some h"
    "FUNCTION_OPTION_METHOD_INDEX h = Some a"
    by (rule valid_params_methods)
  from assms(3) obtain n where n: "v = JNum n" "n \<noteq> NaN"
    by (cases v rule: is_double.cases) auto
  have vs: "valid_series E [(d, v)]"
    using assms(2) n by (simp add: valid_series_def valid_entry_def isNaN_def)
  have "num_add (Fin 0) n = n" using assms(3) n by (cases n) auto
  then have "a E [v] = Inr v"
    using o(4) n
    by (auto simp: FUNCTION_OPTION_METHOD_INDEX_def reduce_from_def js_plus_def
        split: if_splits)
  then show ?thesis
    unfolding resample_valid[OF vs o] by (simp add: keyed_def key_in_def)
qed

section \<open>Evaluation at the examples\<close>

lemmas calendar_defs = days_from_civil_def civil_from_days_def MakeDay_def lastDayOfMonth_def
  lastDayOfWeek_def lastDayOfQuarter_def lastDayOfYear_def format_YYYY_MM_DD_def
  addLeadingZeros_def Let_def getFullYear.simps getMonth.simps getDate.simps getDay.simps

lemma day_2017_05_05: "days_from_civil 2017 5 5 = 17291"
  unfolding calendar_defs by simp

lemma day_2017_05_20: "days_from_civil 2017 5 20 = 17306"
  unfolding calendar_defs by simp

lemma day_2017_10_10: "days_from_civil 2017 10 10 = 17449"
  unfolding calendar_defs by simp

lemma lastDayOfMonth_17291: "lastDayOfMonth (Day 17291) = Day 17317"
  unfolding calendar_defs by simp

lemma lastDayOfMonth_17306: "lastDayOfMonth (Day 17306) = Day 17317"
  unfolding calendar_defs by simp

lemma lastDayOfMonth_17449: "lastDayOfMonth (Day 17449) = Day 17470"
  unfolding calendar_defs by simp

lemma format_17317: "format_YYYY_MM_DD (Day 17317) = ''2017-05-31''"
  unfolding calendar_defs by (simp add: decimal.simps digit_char_def)

lemma format_17470: "format_YYYY_MM_DD (Day 17470) = ''2017-10-31''"
  unfolding calendar_defs by (simp add: decimal.simps digit_char_def)

lemma monthEnd_2017_05_05: "format_YYYY_MM_DD (lastDayOfMonth (Day 17291)) = ''2017-05-31''"
  by (simp only: lastDayOfMonth_17291 format_17317)

lemma monthEnd_2017_05_20: "format_YYYY_MM_DD (lastDayOfMonth (Day 17306)) = ''2017-05-31''"
  by (simp only: lastDayOfMonth_17306 format_17317)

lemma monthEnd_2017_10_10: "format_YYYY_MM_DD (lastDayOfMonth (Day 17449)) = ''2017-10-31''"
  by (simp only: lastDayOfMonth_17449 format_17470)

lemma weekEnd_2017_05_05: "format_YYYY_MM_DD (lastDayOfWeek (Day 17291)) = ''2017-05-06''"
proof -
  have "lastDayOfWeek (Day 17291) = Day 17292" unfolding calendar_defs by simp
  moreover have "format_YYYY_MM_DD (Day 17292) = ''2017-05-06''"
    unfolding calendar_defs by (simp add: decimal.simps digit_char_def)
  ultimately show ?thesis by simp
qed

lemma quarterEnd_2017_05_05:
  "format_YYYY_MM_DD (lastDayOfQuarter (Day 17291)) = ''2017-06-30''"
proof -
  have "lastDayOfQuarter (Day 17291) = Day 17347" unfolding calendar_defs by simp
  moreover have "format_YYYY_MM_DD (Day 17347) = ''2017-06-30''"
    unfolding calendar_defs by (simp add: decimal.simps digit_char_def)
  ultimately show ?thesis by simp
qed

lemma yearEnd_2017_05_05: "format_YYYY_MM_DD (lastDayOfYear (Day 17291)) = ''2017-12-31''"
proof -
  have "lastDayOfYear (Day 17291) = Day 17531" unfolding calendar_defs by simp
  moreover have "format_YYYY_MM_DD (Day 17531) = ''2017-12-31''"
    unfolding calendar_defs by (simp add: decimal.simps digit_char_def)
  ultimately show ?thesis by simp
qed

lemma parse_ymd_2017_05_05: "parse_ymd ''2017-05-05'' = Some (Day 17291)"
  unfolding parse_ymd_def MakeDay_def days_from_civil_def Let_def by (simp add: digit_of_def)

lemma parse_ymd_2017_05_20: "parse_ymd ''2017-05-20'' = Some (Day 17306)"
  unfolding parse_ymd_def MakeDay_def days_from_civil_def Let_def by (simp add: digit_of_def)

lemma parse_ymd_2017_10_10: "parse_ymd ''2017-10-10'' = Some (Day 17449)"
  unfolding parse_ymd_def MakeDay_def days_from_civil_def Let_def by (simp add: digit_of_def)

lemma day_2018_02_09: "days_from_civil 2018 2 9 = 17571"
  unfolding calendar_defs by simp

lemma parse_ymd_2017_13_40: "parse_ymd ''2017-13-40'' = Some (Day 17571)"
  unfolding parse_ymd_def MakeDay_def days_from_civil_def Let_def by (simp add: digit_of_def)

lemma parse_ymd_not_a_date: "parse_ymd ''not a date'' = None"
  by (simp add: parse_ymd_def)

lemma round64_22_5: "round64 (45 / 2) = Fin (45 / 2)"
  using round64_eval[of "45 / 2" 4 "45 * 2 ^ 47"] by (simp add: pow2_def round_half_even_def)

lemma round64_32_5: "round64 (65 / 2) = Fin (65 / 2)"
  using round64_eval[of "65 / 2" 5 "65 * 2 ^ 46"] by (simp add: pow2_def round_half_even_def)

lemma round64_44_5: "round64 (89 / 2) = Fin (89 / 2)"
  using round64_eval[of "89 / 2" 5 "89 * 2 ^ 46"] by (simp add: pow2_def round_half_even_def)

lemma valid_monthEnd_sum: "valid_params monthEnd_sum"
  by (simp add: valid_params_def valid_frequency_def valid_function_def frequency_keys_def
      function_keys_def monthEnd_sum_def)

lemma valid_example_series: "valid_series sample_env example_series"
  by (simp add: valid_series_def valid_entry_def example_series_def sample_env_def isNaN_def
      parse_ymd_2017_05_05 parse_ymd_2017_05_20 parse_ymd_2017_10_10)

lemma sample_abc: "StringToNumber sample_env ''abc'' = NaN"
  by (simp add: sample_env_def sample_StringToNumber_def digit_of_def)

lemma sample_5: "StringToNumber sample_env ''5'' = Fin 5"
  using round64_of_int[of 5]
  by (simp add: sample_env_def sample_StringToNumber_def digit_of_def)

lemma sample_0_string: "NumberToString sample_env (Fin 0) = ''0''"
  by (simp add: sample_env_def decimal.simps digit_char_def)

lemma sample_parse_2017_05_05: "parse sample_env ''2017-05-05'' = Some (Day 17291)"
  by (simp add: sample_env_def parse_ymd_2017_05_05)

lemma sample_parse_2017_05_20: "parse sample_env ''2017-05-20'' = Some (Day 17306)"
  by (simp add: sample_env_def parse_ymd_2017_05_20)

lemma sample_parse_2017_13_40:
  "parse sample_env ''2017-13-40'' = Some (Day (days_from_civil 2018 2 9))"
  by (simp add: sample_env_def parse_ymd_2017_13_40 day_2018_02_09)

lemma sample_parse_not_a_date: "parse sample_env ''not a date'' = None"
  by (simp add: sample_env_def parse_ymd_not_a_date)

lemma resample_fails_clean:
  "cleanTimeSeries E ts = Inl e \<Longrightarrow> valid_params p \<Longrightarrow> resample E ts p = Inl e"
  by (simp add: resample_def validateParams_valid)

lemma resample_invalid_series: "\<not> valid_series E ts \<Longrightarrow> \<exists>e. resample E ts p = Inl e"
proof -
  assume "\<not> valid_series E ts"
  then obtain e where "cleanTimeSeries E ts = Inl e"
    using clean_loop_invalid[of E ts "[]"] by (auto simp: cleanTimeSeries_def)
  then show ?thesis by (cases "validateParams p") (auto simp: resample_def)
qed

lemma round64_2_53_1: "round64 9007199254740993 = Fin 9007199254740992"
  using round64_eval[of 9007199254740993 53 "2 ^ 52"]
  by (simp add: pow2_def round_half_even_def)

lemma round64_2_53_2: "round64 9007199254740994 = Fin 9007199254740994"
  using round64_eval[of 9007199254740994 53 "2 ^ 52 + 1"]
  by (simp add: pow2_def round_half_even_def)

lemma round64_2_53: "round64 9007199254740992 = Fin 9007199254740992"
  using round64_of_int[of 9007199254740992] by simp

lemma round64_1: "round64 1 = Fin 1"
  using round64_of_int[of 1] by simp

lemma round64_2: "round64 2 = Fin 2"
  using round64_of_int[of 2] by simp

lemma valid_big_first: "valid_series sample_env big_first"
  by (simp add: valid_series_def valid_entry_def big_first_def isNaN_def
      sample_parse_2017_05_05 sample_parse_2017_05_20)

lemma keyed_sample_big_first:
  "keyed sample_env lastDayOfMonth big_first =
     [(''2017-05-31'', JNum (Fin 9007199254740992)), (''2017-05-31'', JNum (Fin 1)),
      (''2017-05-31'', JNum (Fin 1))]"
  by (simp add: keyed_def big_first_def sample_parse_2017_05_05 sample_parse_2017_05_20
      monthEnd_2017_05_05 monthEnd_2017_05_20)

lemma keyed_sample_big_last:
  "keyed sample_env lastDayOfMonth big_last =
     [(''2017-05-31'', JNum (Fin 1)), (''2017-05-31'', JNum (Fin 1)),
      (''2017-05-31'', JNum (Fin 9007199254740992))]"
  by (simp add: keyed_def big_last_def sample_parse_2017_05_05 sample_parse_2017_05_20
      monthEnd_2017_05_05 monthEnd_2017_05_20)

lemma monthEnd_sum_methods:
  "resampleFrequency monthEnd_sum = Some ''monthEnd''"
  "FREQUENCY_OPTION_METHOD_INDEX ''monthEnd'' = Some lastDayOfMonth"
  "resampleFunction monthEnd_sum = Some ''sum''"
  "FUNCTION_OPTION_METHOD_INDEX ''sum'' =
     Some (\<lambda>E values. reduce_from (js_plus E) (JNum (Fin 0)) values)"
  by (simp_all add: monthEnd_sum_def FREQUENCY_OPTION_METHOD_INDEX_def
      FUNCTION_OPTION_METHOD_INDEX_def)

lemma small_integers_example:
  "small_integers [(''2017-05-05'', JNum (Fin 3)), (''2017-05-20'', JNum (Fin 4))]"
  by (simp add: small_integers_def small_ints_def)

section \<open>The claims\<close>

text \<open>
  Claim C1. For the series \<open>[["2017-05-05", 22.5], ["2017-05-20", 10.0], ["2017-10-10", 44.5]]\<close>
  with the options \<open>monthEnd\<close> and \<open>sum\<close>, the operation succeeds and returns exactly the
  two pairs \<open>["2017-05-31", 32.5]\<close> and \<open>["2017-10-31", 44.5]\<close>, with any parser that reads
  the three date texts as the calendar dates they write.
\<close>
theorem example_monthEnd_sum:
  assumes "parse E ''2017-05-05'' = Some (Day (days_from_civil 2017 5 5))"
    and "parse E ''2017-05-20'' = Some (Day (days_from_civil 2017 5 20))"
    and "parse E ''2017-10-10'' = Some (Day (days_from_civil 2017 10 10))"
  shows "resample E example_series monthEnd_sum =
         Inr [(''2017-05-31'', JNum (Fin (65 / 2))), (''2017-10-31'', JNum (Fin (89 / 2)))]"
proof -
  have 1: "validateParams monthEnd_sum = Inr ()"
    using valid_monthEnd_sum by (rule validateParams_valid)
  have 2: "cleanTimeSeries E example_series =
           Inr [(Day 17291, JNum (Fin (45 / 2))), (Day 17306, JNum (Fin 10)),
                (Day 17449, JNum (Fin (89 / 2)))]"
    using assms
    by (simp add: example_series_def cleanTimeSeries_def isNaN_def day_2017_05_05
        day_2017_05_20 day_2017_10_10)
  have 3: "applyFrequency (Some ''monthEnd'')
             [(Day 17291, JNum (Fin (45 / 2))), (Day 17306, JNum (Fin 10)),
              (Day 17449, JNum (Fin (89 / 2)))] =
           Inr [(''2017-05-31'', JNum (Fin (45 / 2))), (''2017-05-31'', JNum (Fin 10)),
                (''2017-10-31'', JNum (Fin (89 / 2)))]"
    by (simp add: applyFrequency_def property_def FREQUENCY_OPTION_METHOD_INDEX_def
        monthEnd_2017_05_05 monthEnd_2017_05_20 monthEnd_2017_10_10)
  have 4: "group_loop [(''2017-05-31'', JNum (Fin (45 / 2))), (''2017-05-31'', JNum (Fin 10)),
                       (''2017-10-31'', JNum (Fin (89 / 2)))] [] =
           [(''2017-05-31'', [JNum (Fin (45 / 2)), JNum (Fin 10)]),
            (''2017-10-31'', [JNum (Fin (89 / 2))])]"
    by (simp add: key_in_def push_value_def)
  have 5: "reduce_loop E (Some ''sum'')
             [(''2017-05-31'', [JNum (Fin (45 / 2)), JNum (Fin 10)]),
              (''2017-10-31'', [JNum (Fin (89 / 2))])] [] =
           Inr [(''2017-05-31'', JNum (Fin (65 / 2))), (''2017-10-31'', JNum (Fin (89 / 2)))]"
    by (simp add: property_def FUNCTION_OPTION_METHOD_INDEX_def reduce_from_def js_plus_def
        round64_22_5 round64_32_5 round64_44_5)
  have f: "resampleFrequency monthEnd_sum = Some ''monthEnd''"
    and g: "resampleFunction monthEnd_sum = Some ''sum''"
    by (simp_all add: monthEnd_sum_def)
  show ?thesis
    by (simp add: resample_def 1 2 f g 3 applyFunction_def 4 5
        del: group_loop.simps reduce_loop.simps)
qed

theorem example_monthEnd_sum_witness:
  "parse sample_env ''2017-05-05'' = Some (Day (days_from_civil 2017 5 5)) \<and>
   parse sample_env ''2017-05-20'' = Some (Day (days_from_civil 2017 5 20)) \<and>
   parse sample_env ''2017-10-10'' = Some (Day (days_from_civil 2017 10 10)) \<and>
   resample sample_env example_series monthEnd_sum =
     Inr [(''2017-05-31'', JNum (Fin (65 / 2))), (''2017-10-31'', JNum (Fin (89 / 2)))]"
proof -
  have a: "parse sample_env ''2017-05-05'' = Some (Day (days_from_civil 2017 5 5))"
    by (simp add: sample_env_def parse_ymd_2017_05_05 day_2017_05_05)
  have b: "parse sample_env ''2017-05-20'' = Some (Day (days_from_civil 2017 5 20))"
    by (simp add: sample_env_def parse_ymd_2017_05_20 day_2017_05_20)
  have c: "parse sample_env ''2017-10-10'' = Some (Day (days_from_civil 2017 10 10))"
    by (simp add: sample_env_def parse_ymd_2017_10_10 day_2017_10_10)
  show ?thesis using example_monthEnd_sum[OF a b c] a b c by simp
qed

text \<open>
  Claim C2. For valid options and a valid series of length \<open>n\<close> whose entries resolve to
  \<open>k\<close> distinct period keys, the operation succeeds with an output of length exactly
  \<open>k\<close>, and \<open>k \<le> n\<close>; the keys of the output are those period keys, each once.
\<close>
theorem resample_length:
  assumes "valid_params p" "valid_series E ts"
  shows "\<exists>out. resample E ts p = Inr out \<and>
           length out = card (period_keys E p ts) \<and>
           card (period_keys E p ts) \<le> length ts \<and>
           distinct (map fst out) \<and> Some ` set (map fst out) = period_keys E p ts"
proof -
  from assms(1) obtain f m h a where o: "resampleFrequency p = Some f"
    "FREQUENCY_OPTION_METHOD_INDEX f = Some m" "resampleFunction p = Some h"
    "FUNCTION_OPTION_METHOD_INDEX h = Some a"
    by (rule valid_params_methods)
  let ?g = "group_loop (keyed E m ts) []"
  let ?out = "map (\<lambda>(k, vs). (k, projr (a E vs))) ?g"
  have r: "resample E ts p = Inr ?out" using resample_valid[OF assms(2) o] .
  have mf: "map fst ?out = map fst ?g" by (simp add: comp_def case_prod_unfold)
  have pk: "period_keys E p ts = Some ` fst ` set (keyed E m ts)"
    using period_keys_keyed[OF o(1,2) assms(2)] .
  have c: "card (period_keys E p ts) = card (fst ` set (keyed E m ts))"
    unfolding pk by (rule card_image) simp
  have l: "length ?out = card (period_keys E p ts)"
    using group_loop_length[of "keyed E m ts"] c by simp
  have "card (fst ` set (keyed E m ts)) \<le> card (set (keyed E m ts))"
    by (rule card_image_le) simp
  also have "\<dots> \<le> length (keyed E m ts)" by (rule card_length)
  also have "\<dots> = length ts" by (simp add: keyed_def)
  finally have le: "card (period_keys E p ts) \<le> length ts" using c by simp
  have d: "distinct (map fst ?out)" unfolding mf by (rule group_loop_distinct)
  have k: "Some ` set (map fst ?out) = period_keys E p ts"
    unfolding mf pk using group_loop_keys[of "keyed E m ts"] by simp
  show ?thesis using r l le d k by blast
qed

theorem resample_length_witness:
  "valid_params monthEnd_sum \<and> valid_series sample_env example_series \<and>
   (\<exists>out. resample sample_env example_series monthEnd_sum = Inr out \<and>
      length out = card (period_keys sample_env monthEnd_sum example_series) \<and>
      card (period_keys sample_env monthEnd_sum example_series) \<le> length example_series \<and>
      distinct (map fst out) \<and>
      Some ` set (map fst out) = period_keys sample_env monthEnd_sum example_series)"
  using resample_length[OF valid_monthEnd_sum valid_example_series] valid_monthEnd_sum
    valid_example_series by simp

text \<open>
  Claim C3. When \<open>resampleFrequency\<close> is absent or is not one of \<open>monthEnd\<close>, \<open>weekEnd\<close>,
  \<open>quarterEnd\<close>, \<open>yearEnd\<close>, the operation fails with the error of the frequency
  parameter; when the frequency is accepted and \<open>resampleFunction\<close> is absent or is not one
  of \<open>min\<close>, \<open>max\<close>, \<open>sum\<close>, it fails with the error of the function parameter. Both
  hold for every series and every parser, also for a series no entry of which is valid:
  the failure does not depend on the series, which has not been read.
\<close>
theorem resample_validates_first:
  "(\<not> valid_frequency p \<longrightarrow>
      resample E ts p = Inl (Error ''Invalid resampleFrequency paramter'')) \<and>
   (valid_frequency p \<and> \<not> valid_function p \<longrightarrow>
      resample E ts p = Inl (Error ''Invalid resampleFunction paramter''))"
  using resample_invalid_frequency resample_invalid_function by blast

theorem resample_validates_first_witness:
  "\<not> valid_frequency \<lparr>resampleFrequency = Some ''dayEnd'', resampleFunction = None\<rparr> \<and>
   resample sample_env [(''not a date'', JUndefined)]
     \<lparr>resampleFrequency = Some ''dayEnd'', resampleFunction = None\<rparr> =
     Inl (Error ''Invalid resampleFrequency paramter'') \<and>
   valid_frequency \<lparr>resampleFrequency = Some ''monthEnd'', resampleFunction = None\<rparr> \<and>
   \<not> valid_function \<lparr>resampleFrequency = Some ''monthEnd'', resampleFunction = None\<rparr> \<and>
   resample sample_env [(''not a date'', JUndefined)]
     \<lparr>resampleFrequency = Some ''monthEnd'', resampleFunction = None\<rparr> =
     Inl (Error ''Invalid resampleFunction paramter'')"
  using resample_validates_first[of "\<lparr>resampleFrequency = Some ''dayEnd'', resampleFunction = None\<rparr>"
      sample_env "[(''not a date'', JUndefined)]"]
    resample_validates_first[of "\<lparr>resampleFrequency = Some ''monthEnd'', resampleFunction = None\<rparr>"
      sample_env "[(''not a date'', JUndefined)]"]
  by (simp add: valid_frequency_def valid_function_def frequency_keys_def function_keys_def)

text \<open>
  Claim C4, as stated, fails: the normalizer tests the value with \<open>isNaN\<close>, which an
  infinite value passes (the JSON number \<open>1e999\<close> is read as \<open>Infinity\<close>).
\<close>
theorem infinite_value_counterexample:
  "cleanTimeSeries sample_env [(''2017-05-05'', JNum PInf)] = Inr [(Day 17291, JNum PInf)] \<and>
   \<not> is_finite (ToNumber sample_env (JNum PInf))"
  by (simp add: cleanTimeSeries_def sample_parse_2017_05_05 isNaN_def)

text \<open>
  Claim C4, amended. Every entry the normalizer produces carries a value whose coercion
  to a number is not \<open>NaN\<close> (it may be infinite). A series with a value that coerces
  to \<open>NaN\<close> makes the normalizer fail; when the entries before it are valid and its own
  date parses, the error is the Invalid value error carrying that value.
\<close>
theorem normalizer_values:
  "(cleanTimeSeries E ts = Inr ps \<longrightarrow> (\<forall>x \<in> set ps. \<not> isNaN E (snd x))) \<and>
   ((\<exists>x \<in> set ts. isNaN E (snd x)) \<longrightarrow> (\<exists>e. cleanTimeSeries E ts = Inl e)) \<and>
   (valid_series E pre \<and> parse E d \<noteq> None \<and> isNaN E v \<longrightarrow>
      cleanTimeSeries E (pre @ (d, v) # post) =
        Inl (Error (''Invalid value: '' @ ToString E v)))"
proof (intro conjI impI)
  assume r: "cleanTimeSeries E ts = Inr ps"
  then have v: "valid_series E ts" using clean_loop_Inr[of E ts "[]" ps] by (simp add: cleanTimeSeries_def)
  then have "ps = map (\<lambda>x. (the (parse E (fst x)), snd x)) ts"
    using clean_loop_valid[OF v, of "[]"] r by (simp add: cleanTimeSeries_def)
  then show "\<forall>x \<in> set ps. \<not> isNaN E (snd x)"
    using v by (auto simp: valid_series_def list_all_iff valid_entry_def)
next
  assume "\<exists>x \<in> set ts. isNaN E (snd x)"
  then have "\<not> valid_series E ts"
    by (auto simp: valid_series_def list_all_iff valid_entry_def)
  then show "\<exists>e. cleanTimeSeries E ts = Inl e"
    using clean_loop_invalid[of E ts "[]"] by (simp add: cleanTimeSeries_def)
next
  assume "valid_series E pre \<and> parse E d \<noteq> None \<and> isNaN E v"
  then show "cleanTimeSeries E (pre @ (d, v) # post) =
        Inl (Error (''Invalid value: '' @ ToString E v))"
    using clean_loop_bad_value[of E pre d v post "[]"] by (simp add: cleanTimeSeries_def)
qed

theorem normalizer_values_witness:
  "cleanTimeSeries sample_env [(''2017-05-05'', JStr ''5'')] = Inr [(Day 17291, JStr ''5'')] \<and>
   \<not> isNaN sample_env (JStr ''5'') \<and>
   isNaN sample_env (JStr ''abc'') \<and>
   (\<exists>e. cleanTimeSeries sample_env [(''2017-05-20'', JNum (Fin 5)), (''2017-05-05'', JStr ''abc'')]
          = Inl e) \<and>
   valid_series sample_env example_series \<and> parse sample_env ''2017-05-05'' \<noteq> None \<and>
   cleanTimeSeries sample_env
     (example_series @ (''2017-05-05'', JStr ''abc'') # [(''2017-05-20'', JNum (Fin 5))]) =
     Inl (Error ''Invalid value: abc'')"
proof -
  have c: "cleanTimeSeries sample_env [(''2017-05-05'', JStr ''5'')] = Inr [(Day 17291, JStr ''5'')]"
    by (simp add: cleanTimeSeries_def sample_parse_2017_05_05 isNaN_def sample_5)
  have n: "isNaN sample_env (JStr ''abc'')" by (simp add: isNaN_def sample_abc)
  show ?thesis
    using normalizer_values[of sample_env "[(''2017-05-05'', JStr ''5'')]" "[(Day 17291, JStr ''5'')]"
        example_series "''2017-05-05''" "JStr ''abc''" "[(''2017-05-20'', JNum (Fin 5))]"]
      normalizer_values[of sample_env
        "[(''2017-05-20'', JNum (Fin 5)), (''2017-05-05'', JStr ''abc'')]"]
      c n valid_example_series sample_parse_2017_05_05
    by simp
qed

text \<open>
  Claim C5, as stated, fails for \<open>sum\<close>: the sum is a left-to-right sum of binary64
  numbers, and that addition is not associative. The two series below are permutations
  of each other; \<open>2^53 + 1\<close> rounds back to \<open>2^53\<close>, twice, while \<open>1 + 1 + 2^53\<close> is
  exact.
\<close>
theorem sum_order_counterexample:
  "mset big_last = mset big_first \<and> valid_series sample_env big_first \<and>
   resample sample_env big_first monthEnd_sum =
     Inr [(''2017-05-31'', JNum (Fin 9007199254740992))] \<and>
   resample sample_env big_last monthEnd_sum =
     Inr [(''2017-05-31'', JNum (Fin 9007199254740994))]"
proof -
  have p: "mset big_last = mset big_first" by (simp add: big_first_def big_last_def)
  have v': "valid_series sample_env big_last"
    using valid_series_perm[OF p valid_big_first] .
  have 1: "resample sample_env big_first monthEnd_sum =
     Inr [(''2017-05-31'', JNum (Fin 9007199254740992))]"
    unfolding resample_valid[OF valid_big_first monthEnd_sum_methods] keyed_sample_big_first
    by (simp add: key_in_def push_value_def reduce_from_def js_plus_def round64_2_53
        round64_2_53_1)
  have 2: "resample sample_env big_last monthEnd_sum =
     Inr [(''2017-05-31'', JNum (Fin 9007199254740994))]"
    unfolding resample_valid[OF v' monthEnd_sum_methods] keyed_sample_big_last
    by (simp add: key_in_def push_value_def reduce_from_def js_plus_def round64_1 round64_2
        round64_2_53_2)
  show ?thesis using p valid_big_first 1 2 by simp
qed

text \<open>
  Claim C5, amended. For valid options and a valid series, resampling any permutation of
  the series succeeds and yields the same set of (period key, aggregated value) pairs,
  for \<open>min\<close> and \<open>max\<close>, and for \<open>sum\<close> when the values are integers the sum of whose
  absolute values is at most \<open>2^53\<close>.
\<close>
theorem order_independence:
  assumes "valid_params p" "valid_series E ts" "mset ts' = mset ts"
    and "resampleFunction p = Some ''sum'' \<longrightarrow> small_integers ts"
  shows "\<exists>out out'. resample E ts p = Inr out \<and> resample E ts' p = Inr out' \<and>
           set out' = set out"
proof -
  from assms(1) obtain f m h a where o: "resampleFrequency p = Some f"
    "FREQUENCY_OPTION_METHOD_INDEX f = Some m" "resampleFunction p = Some h"
    "FUNCTION_OPTION_METHOD_INDEX h = Some a"
    by (rule valid_params_methods)
  let ?K = "keyed E m ts" and ?K' = "keyed E m ts'"
  have v': "valid_series E ts'" using valid_series_perm[OF assms(3,2)] .
  obtain out where out: "resample E ts p = Inr out"
    "set out = (\<lambda>k. (k, projr (a E (values_of k ?K)))) ` fst ` set ?K"
    using resample_set[OF assms(2) o] by blast
  obtain out' where out': "resample E ts' p = Inr out'"
    "set out' = (\<lambda>k. (k, projr (a E (values_of k ?K')))) ` fst ` set ?K'"
    using resample_set[OF v' o] by blast
  have mK: "mset ?K' = mset ?K" using assms(3) by (simp add: keyed_def)
  then have sK: "set ?K' = set ?K" by (rule mset_eq_setD)
  have eq: "a E (values_of k ?K') = a E (values_of k ?K)" for k
  proof (rule method_perm[OF o(4)])
    show "mset (values_of k ?K') = mset (values_of k ?K)"
      using mK by (simp add: values_of_def)
    have "set (values_of k ?K) \<subseteq> snd ` set ts"
      by (force simp: values_of_def keyed_def)
    then show "\<forall>v \<in> set (values_of k ?K). \<not> isNaN E v"
      using assms(2) by (auto simp: valid_series_def list_all_iff valid_entry_def)
    show "h = ''sum'' \<longrightarrow> small_ints (values_of k ?K)"
      using assms(4) o(3) small_ints_filter[of ?K k]
      by (simp add: small_integers_def keyed_values)
  qed
  have "set out' = set out" unfolding out(2) out'(2) sK by (simp add: eq)
  then show ?thesis using out(1) out'(1) by blast
qed

theorem order_independence_witness:
  "valid_params monthEnd_sum \<and>
   valid_series sample_env [(''2017-05-05'', JNum (Fin 3)), (''2017-05-20'', JNum (Fin 4))] \<and>
   mset [(''2017-05-20'', JNum (Fin 4)), (''2017-05-05'', JNum (Fin 3))] =
     mset [(''2017-05-05'', JNum (Fin 3)), (''2017-05-20'', JNum (Fin 4))] \<and>
   resampleFunction monthEnd_sum = Some ''sum'' \<and>
   small_integers [(''2017-05-05'', JNum (Fin 3)), (''2017-05-20'', JNum (Fin 4))] \<and>
   (\<exists>out out'.
      resample sample_env [(''2017-05-05'', JNum (Fin 3)), (''2017-05-20'', JNum (Fin 4))]
        monthEnd_sum = Inr out \<and>
      resample sample_env [(''2017-05-20'', JNum (Fin 4)), (''2017-05-05'', JNum (Fin 3))]
        monthEnd_sum = Inr out' \<and> set out' = set out)"
proof -
  let ?ts = "[(''2017-05-05'', JNum (Fin 3)), (''2017-05-20'', JNum (Fin 4))]"
  let ?ts' = "[(''2017-05-20'', JNum (Fin 4)), (''2017-05-05'', JNum (Fin 3))]"
  have v: "valid_series sample_env ?ts"
    by (simp add: valid_series_def valid_entry_def isNaN_def sample_parse_2017_05_05
        sample_parse_2017_05_20)
  have m: "mset ?ts' = mset ?ts" by simp
  have s: "resampleFunction monthEnd_sum = Some ''sum'' \<longrightarrow> small_integers ?ts"
    using small_integers_example by simp
  show ?thesis
    using order_independence[OF valid_monthEnd_sum v m s] valid_monthEnd_sum v m
      small_integers_example monthEnd_sum_methods(3)
    by simp
qed

text \<open>
  Claim C6 at the series \<open>[["2017-05-05", "5"]]\<close> with the options \<open>monthEnd\<close> and \<open>sum\<close>:
  the normalizer accepts the numeric string and keeps it a string, and the sum
  \<open>0 + "5"\<close> is the string \<open>"05"\<close>, not the value of the entry.
\<close>
theorem single_numeric_string_sum:
  assumes "parse E ''2017-05-05'' = Some (Day (days_from_civil 2017 5 5))"
    and "StringToNumber E ''5'' = Fin 5"
    and "NumberToString E (Fin 0) = ''0''"
  shows "resample E [(''2017-05-05'', JStr ''5'')] monthEnd_sum =
         Inr [(''2017-05-31'', JStr ''05'')]"
proof -
  have 1: "validateParams monthEnd_sum = Inr ()"
    using valid_monthEnd_sum by (rule validateParams_valid)
  have 2: "cleanTimeSeries E [(''2017-05-05'', JStr ''5'')] = Inr [(Day 17291, JStr ''5'')]"
    using assms by (simp add: cleanTimeSeries_def isNaN_def day_2017_05_05)
  have 3: "applyFrequency (Some ''monthEnd'') [(Day 17291, JStr ''5'')] =
           Inr [(''2017-05-31'', JStr ''5'')]"
    by (simp add: applyFrequency_def property_def FREQUENCY_OPTION_METHOD_INDEX_def
        monthEnd_2017_05_05)
  have 4: "applyFunction E (Some ''sum'') [(''2017-05-31'', JStr ''5'')] =
           Inr [(''2017-05-31'', JStr ''05'')]"
    using assms(3)
    by (simp add: applyFunction_def key_in_def property_def FUNCTION_OPTION_METHOD_INDEX_def
        reduce_from_def js_plus_def)
  have f: "resampleFrequency monthEnd_sum = Some ''monthEnd''"
    and g: "resampleFunction monthEnd_sum = Some ''sum''"
    by (simp_all add: monthEnd_sum_def)
  show ?thesis by (simp add: resample_def 1 2 f g 3 4)
qed

theorem single_numeric_string_sum_witness:
  "parse sample_env ''2017-05-05'' = Some (Day (days_from_civil 2017 5 5)) \<and>
   StringToNumber sample_env ''5'' = Fin 5 \<and>
   NumberToString sample_env (Fin 0) = ''0'' \<and>
   resample sample_env [(''2017-05-05'', JStr ''5'')] monthEnd_sum =
     Inr [(''2017-05-31'', JStr ''05'')]"
proof -
  have a: "parse sample_env ''2017-05-05'' = Some (Day (days_from_civil 2017 5 5))"
    by (simp add: sample_parse_2017_05_05 day_2017_05_05)
  show ?thesis
    using single_numeric_string_sum[OF a sample_5 sample_0_string] a sample_5 sample_0_string
    by simp
qed

text \<open>
  Claim C7. A series with an unparsable date text at any position makes the whole call
  fail, with no partial result. The normalizer throws on the first invalid entry: with
  valid options, when the entries before the unparsable text are valid, the call fails
  with the Invalid date error carrying that text, whatever its position and whatever
  follows it.
\<close>
theorem unparsable_date_aborts:
  "((\<exists>x \<in> set ts. parse E (fst x) = None) \<longrightarrow> (\<exists>e. resample E ts p = Inl e)) \<and>
   (valid_params p \<and> valid_series E pre \<and> parse E d = None \<longrightarrow>
      resample E (pre @ (d, v) # post) p = Inl (Error (''Invalid date: '' @ d)))"
proof (intro conjI impI)
  assume "\<exists>x \<in> set ts. parse E (fst x) = None"
  then have "\<not> valid_series E ts"
    by (auto simp: valid_series_def list_all_iff valid_entry_def)
  then show "\<exists>e. resample E ts p = Inl e" by (rule resample_invalid_series)
next
  assume a: "valid_params p \<and> valid_series E pre \<and> parse E d = None"
  then have "cleanTimeSeries E (pre @ (d, v) # post) = Inl (Error (''Invalid date: '' @ d))"
    using clean_loop_bad_date[of E pre d v post "[]"] by (simp add: cleanTimeSeries_def)
  then show "resample E (pre @ (d, v) # post) p = Inl (Error (''Invalid date: '' @ d))"
    using a resample_fails_clean by blast
qed

theorem unparsable_date_aborts_witness:
  "parse sample_env ''not a date'' = None \<and> valid_params monthEnd_sum \<and>
   valid_series sample_env example_series \<and>
   (\<exists>e. resample sample_env (example_series @ [(''not a date'', JNum (Fin 5))]) monthEnd_sum
          = Inl e) \<and>
   resample sample_env [(''not a date'', JNum (Fin 5))] monthEnd_sum =
     Inl (Error ''Invalid date: not a date'') \<and>
   resample sample_env
     (example_series @ (''not a date'', JNum (Fin 5)) # [(''2017-05-05'', JUndefined)])
     monthEnd_sum = Inl (Error ''Invalid date: not a date'')"
  using unparsable_date_aborts[of "example_series @ [(''not a date'', JNum (Fin 5))]"
      sample_env monthEnd_sum example_series "''not a date''" "JNum (Fin 5)"
      "[(''2017-05-05'', JUndefined)]"]
    unparsable_date_aborts[of "[]" sample_env monthEnd_sum "[]" "''not a date''"
      "JNum (Fin 5)" "[]"]
    sample_parse_not_a_date valid_monthEnd_sum valid_example_series
  by (simp add: valid_series_def)

text \<open>
  Claim C8. When the normalizer succeeds, its output has the length of the input and
  its \<open>i\<close>-th entry is the parsed date and the value of the \<open>i\<close>-th input entry; it
  succeeds exactly on the valid series, and on any other series the result is an error
  and no output at all.
\<close>
theorem cleanTimeSeries_all_or_nothing:
  "(valid_series E ts \<longrightarrow>
      (\<exists>ps. cleanTimeSeries E ts = Inr ps \<and> length ps = length ts \<and>
         (\<forall>i < length ts. parse E (fst (ts ! i)) = Some (fst (ps ! i)) \<and>
                          snd (ps ! i) = snd (ts ! i)))) \<and>
   (\<not> valid_series E ts \<longrightarrow> (\<exists>e. cleanTimeSeries E ts = Inl e))"
proof (intro conjI impI)
  assume v: "valid_series E ts"
  let ?ps = "map (\<lambda>x. (the (parse E (fst x)), snd x)) ts"
  have 1: "cleanTimeSeries E ts = Inr ?ps"
    using clean_loop_valid[OF v, of "[]"] by (simp add: cleanTimeSeries_def)
  have "parse E (fst (ts ! i)) = Some (fst (?ps ! i)) \<and> snd (?ps ! i) = snd (ts ! i)"
    if "i < length ts" for i
  proof -
    have "valid_entry E (ts ! i)" using v that by (simp add: valid_series_def list_all_length)
    then show ?thesis using that by (auto simp: valid_entry_def)
  qed
  then show "\<exists>ps. cleanTimeSeries E ts = Inr ps \<and> length ps = length ts \<and>
         (\<forall>i < length ts. parse E (fst (ts ! i)) = Some (fst (ps ! i)) \<and>
                          snd (ps ! i) = snd (ts ! i))"
    using 1 by (intro exI[of _ ?ps]) simp
next
  assume "\<not> valid_series E ts"
  then show "\<exists>e. cleanTimeSeries E ts = Inl e"
    using clean_loop_invalid[of E ts "[]"] by (simp add: cleanTimeSeries_def)
qed

theorem cleanTimeSeries_all_or_nothing_witness:
  "valid_series sample_env example_series \<and>
   (\<exists>ps. cleanTimeSeries sample_env example_series = Inr ps \<and> length ps = 3) \<and>
   \<not> valid_series sample_env [(''2017-05-05'', JNum (Fin 10)), (''not a date'', JNum (Fin 5))] \<and>
   (\<exists>e. cleanTimeSeries sample_env
           [(''2017-05-05'', JNum (Fin 10)), (''not a date'', JNum (Fin 5))] = Inl e)"
proof -
  have n: "\<not> valid_series sample_env
             [(''2017-05-05'', JNum (Fin 10)), (''not a date'', JNum (Fin 5))]"
    by (simp add: valid_series_def valid_entry_def sample_env_def parse_ymd_not_a_date)
  show ?thesis
    using cleanTimeSeries_all_or_nothing[of sample_env example_series]
      cleanTimeSeries_all_or_nothing[of sample_env
        "[(''2017-05-05'', JNum (Fin 10)), (''not a date'', JNum (Fin 5))]"]
      valid_example_series n
    by (auto simp: example_series_def)
qed

text \<open>
  Claim C9. Every group formed by the grouping pass holds at least one value, so the
  aggregation function is only applied to non-empty sequences, and no call of the
  operation ends with the error of reducing an empty array.
\<close>
theorem groups_never_empty:
  "(\<forall>(dateKey, valueGroup) \<in> set (group_loop timeseries []). valueGroup \<noteq> []) \<and>
   resample E ts p \<noteq> Inl (TypeError ''Reduce of empty array with no initial value'')"
  using group_loop_nonempty[of _ _ timeseries] resample_not_reduce_error[of E ts p] by blast

theorem groups_never_empty_witness:
  "group_loop [(''2017-05-31'', JNull), (''2017-05-31'', JNull)] [] =
     [(''2017-05-31'', [JNull, JNull])] \<and>
   snd (hd (group_loop [(''2017-05-31'', JNull), (''2017-05-31'', JNull)] [])) \<noteq> [] \<and>
   resample sample_env example_series monthEnd_sum \<noteq>
     Inl (TypeError ''Reduce of empty array with no initial value'')"
  using groups_never_empty[of "[(''2017-05-31'', JNull), (''2017-05-31'', JNull)]"
      sample_env example_series monthEnd_sum]
  by (simp add: key_in_def push_value_def)

text \<open>
  Claim C10. With valid options, the operation on the empty series succeeds and returns
  the empty series.
\<close>
theorem resample_empty: "valid_params p \<Longrightarrow> resample E [] p = Inr []"
  by (simp add: resample_def validateParams_valid cleanTimeSeries_def applyFrequency_def
      applyFunction_def)

theorem resample_empty_witness:
  "valid_params monthEnd_sum \<and> resample sample_env [] monthEnd_sum = Inr []"
  using resample_empty[OF valid_monthEnd_sum, of sample_env] valid_monthEnd_sum by simp

end
